theory Spec2Isabelle
  imports Complex_Main
begin

section \<open>Parts and customization state (src/app/page.tsx)\<close>

text \<open>
  The TypeScript type \<open>PartName\<close> is a union of eight string literals; \<open>PART_NAMES\<close>
  lists them. A value of the union is the string itself, which \<open>PartName_string\<close> gives
  back. Strings that arrive from outside (a message's \<open>part\<close>, a hit object's name) are
  plain strings and are tested with \<open>PART_NAMES.includes\<close>.
\<close>

datatype PartName =
  logo | ankleflap | laceguardarea | midsole | outsole | sidepanel | upper | laces

fun PartName_string :: "PartName \<Rightarrow> string" where
  "PartName_string logo = ''logo''"
| "PartName_string ankleflap = ''ankleflap''"
| "PartName_string laceguardarea = ''laceguardarea''"
| "PartName_string midsole = ''midsole''"
| "PartName_string outsole = ''outsole''"
| "PartName_string sidepanel = ''sidepanel''"
| "PartName_string upper = ''upper''"
| "PartName_string laces = ''laces''"

definition PART_NAMES :: "PartName list" where
  "PART_NAMES =
     [logo, ankleflap, laceguardarea, midsole, outsole, sidepanel, upper, laces]"

text \<open>
  \<open>PART_NAMES.includes(s as PartName) ? s : null\<close>: the part a string denotes, if any.
\<close>

definition includes_part :: "string \<Rightarrow> PartName option" where
  "includes_part s = find (\<lambda>p. PartName_string p = s) PART_NAMES"

text \<open>\<open>interface Mapping { offsetX: number; offsetY: number; scale: number }\<close>\<close>

record Mapping =
  offsetX :: real
  offsetY :: real
  scale :: real

text \<open>
  JavaScript truthiness of an optional string (\<open>if (color)\<close>, \<open>if (textures[name])\<close>):
  \<open>undefined\<close>, \<open>null\<close> and the empty string are falsy.
\<close>

fun truthy :: "string option \<Rightarrow> bool" where
  "truthy None = False"
| "truthy (Some s) = (s \<noteq> [])"

text \<open>
  The crop rectangle \<open>{ x, y, width, height }\<close> in source-image pixels. The four
  fields are of type \<open>number\<close>; they are reals here (\<open>NaN\<close> and the infinities
  left out).
\<close>

record PixelCrop =
  crop_x :: real
  crop_y :: real
  crop_width :: real
  crop_height :: real

text \<open>
  The \<open>useState\<close> cells of \<open>Page\<close>. \<open>Record<PartName, T>\<close> is a total function on
  \<open>PartName\<close>; \<open>string | null\<close> is an option.
\<close>

record PageState =
  colors :: "PartName \<Rightarrow> string"
  textures :: "PartName \<Rightarrow> string option"
  mappings :: "PartName \<Rightarrow> Mapping"
  selectedPart :: "PartName option"
  interactive :: bool
  imageSrc :: "string option"
  showCrop :: bool
  crop :: "real \<times> real"
  zoom :: real
  croppedAreaPixels :: "PixelCrop option"

definition initialColors :: "PartName \<Rightarrow> string" where
  "initialColors = (\<lambda>p. ''#ffffff'')"

definition initialTextures :: "PartName \<Rightarrow> string option" where
  "initialTextures = (\<lambda>p. None)"

definition initialMappings :: "PartName \<Rightarrow> Mapping" where
  "initialMappings = (\<lambda>p. \<lparr>offsetX = 0, offsetY = 0, scale = 1\<rparr>)"

definition Page_init :: PageState where
  "Page_init =
     \<lparr>colors = initialColors, textures = initialTextures, mappings = initialMappings,
      selectedPart = None, interactive = True,
      imageSrc = None, showCrop = False, crop = (0, 0), zoom = 1,
      croppedAreaPixels = None\<rparr>"

subsection \<open>The external command channel\<close>

text \<open>
  The payload \<open>e.data\<close> of a message event, destructured as
  \<open>{ part, color, mapping, image }\<close>; the last three are optional.
\<close>

datatype MessageData =
  MessageData string "string option" "Mapping option" "string option"

text \<open>The three branches of \<open>handler\<close>, in the order of the source.\<close>

definition handler_color :: "PartName \<Rightarrow> string \<Rightarrow> PageState \<Rightarrow> PageState" where
  "handler_color p c st =
     st\<lparr>colors := (colors st)(p := c), textures := (textures st)(p := None)\<rparr>"

definition handler_mapping :: "PartName \<Rightarrow> Mapping \<Rightarrow> PageState \<Rightarrow> PageState" where
  "handler_mapping p m st = st\<lparr>mappings := (mappings st)(p := m)\<rparr>"

definition handler_image :: "PartName \<Rightarrow> string \<Rightarrow> PageState \<Rightarrow> PageState" where
  "handler_image p i st = st\<lparr>textures := (textures st)(p := Some i)\<rparr>"

fun handler :: "PageState \<Rightarrow> MessageData \<Rightarrow> PageState" where
  "handler st (MessageData part color mapping img) =
     (case includes_part part of
        None \<Rightarrow> st
      | Some p \<Rightarrow>
          (let st1 = (case color of
                        Some c \<Rightarrow> if truthy color then handler_color p c st else st
                      | None \<Rightarrow> st);
               st2 = (case mapping of
                        Some m \<Rightarrow> handler_mapping p m st1
                      | None \<Rightarrow> st1);
               st3 = (case img of
                        Some i \<Rightarrow> if truthy img then handler_image p i st2 else st2
                      | None \<Rightarrow> st2)
           in st3))"

subsection \<open>Selection and the interaction toggle\<close>

definition toggleInteractive :: "PageState \<Rightarrow> PageState" where
  "toggleInteractive st =
     (let st1 = (if interactive st then st\<lparr>selectedPart := None\<rparr> else st)
      in st1\<lparr>interactive := \<not> interactive st1\<rparr>)"

text \<open>
  \<open>onPointerDown\<close> is \<open>undefined\<close> unless \<open>interactive\<close>; \<open>hit\<close> is the name of the
  object under the pointer.
\<close>

definition onPointerDown :: "PageState \<Rightarrow> string \<Rightarrow> PageState" where
  "onPointerDown st hit =
     (if interactive st then st\<lparr>selectedPart := includes_part hit\<rparr> else st)"

definition onPointerMissed :: "PageState \<Rightarrow> PageState" where
  "onPointerMissed st = (if interactive st then st\<lparr>selectedPart := None\<rparr> else st)"

subsection \<open>Cropping\<close>

text \<open>
  The browser is outside the repository. Its three services used by the crop code are
  parameters: decoding an image from a URL (\<open>None\<close> when \<open>onerror\<close> fires),
  \<open>canvas.toBlob\<close> (\<open>None\<close> when the callback receives \<open>null\<close>) and
  \<open>URL.createObjectURL\<close>. A canvas is its two size attributes and the list of
  \<open>drawImage\<close> calls made on its context.
\<close>

record 'img Canvas =
  width :: int
  height :: int
  drawn :: "('img \<times> (real \<times> real \<times> real \<times> real) \<times> (real \<times> real \<times> real \<times> real)) list"

text \<open>
  \<open>canvas.width\<close> and \<open>canvas.height\<close> are attributes of type unsigned long. An
  assignment converts the number given: it is truncated toward zero and reduced modulo
  \<open>2^32\<close>; a result above \<open>2147483647\<close> sets the attribute to its default (300 for
  the width, 150 for the height), any other result is the new value.
\<close>

definition truncate_toward_zero :: "real \<Rightarrow> int" where
  "truncate_toward_zero v = (if 0 \<le> v then \<lfloor>v\<rfloor> else \<lceil>v\<rceil>)"

definition ConvertToUnsignedLong :: "real \<Rightarrow> int" where
  "ConvertToUnsignedLong v = truncate_toward_zero v mod 2 ^ 32"

definition set_dimension :: "int \<Rightarrow> real \<Rightarrow> int" where
  "set_dimension dflt v =
     (let x = ConvertToUnsignedLong v in if x \<le> 2147483647 then x else dflt)"

record ('img, 'blob) Browser =
  createImage :: "string \<Rightarrow> 'img option"
  toBlob :: "'img Canvas \<Rightarrow> string \<Rightarrow> 'blob option"
  createObjectURL :: "'blob \<Rightarrow> string"

datatype CropError = ImageError | CanvasIsEmpty

definition createElement_canvas :: "'img Canvas" where
  "createElement_canvas = \<lparr>width = 300, height = 150, drawn = []\<rparr>"

definition drawImage ::
  "'img Canvas \<Rightarrow> 'img \<Rightarrow> real \<Rightarrow> real \<Rightarrow> real \<Rightarrow> real \<Rightarrow> real \<Rightarrow> real \<Rightarrow> real \<Rightarrow> real \<Rightarrow>
   'img Canvas"
where
  "drawImage cv img sx sy sw sh dx dy dw dh =
     cv\<lparr>drawn := drawn cv @ [(img, (sx, sy, sw, sh), (dx, dy, dw, dh))]\<rparr>"

definition crop_canvas :: "'img \<Rightarrow> PixelCrop \<Rightarrow> 'img Canvas" where
  "crop_canvas img pixelCrop =
     (let canvas = createElement_canvas;
          canvas = canvas\<lparr>width := set_dimension 300 (crop_width pixelCrop)\<rparr>;
          canvas = canvas\<lparr>height := set_dimension 150 (crop_height pixelCrop)\<rparr>
      in drawImage canvas img
           (crop_x pixelCrop) (crop_y pixelCrop) (crop_width pixelCrop) (crop_height pixelCrop)
           0 0 (crop_width pixelCrop) (crop_height pixelCrop))"

definition getCroppedImg ::
  "('img, 'blob) Browser \<Rightarrow> string \<Rightarrow> PixelCrop \<Rightarrow> CropError + 'blob"
where
  "getCroppedImg B src pixelCrop =
     (case createImage B src of
        None \<Rightarrow> Inl ImageError
      | Some img \<Rightarrow>
          (case toBlob B (crop_canvas img pixelCrop) ''image/png'' of
             Some blob \<Rightarrow> Inr blob
           | None \<Rightarrow> Inl CanvasIsEmpty))"

text \<open>
  \<open>onFileChange\<close>: \<open>file\<close> is the data URL the file reader delivers, \<open>None\<close> when no
  file was chosen.
\<close>

definition onFileChange :: "PageState \<Rightarrow> string option \<Rightarrow> PageState" where
  "onFileChange st file =
     (case selectedPart st of
        None \<Rightarrow> st
      | Some p \<Rightarrow>
          (case file of
             None \<Rightarrow> st
           | Some url \<Rightarrow> st\<lparr>imageSrc := Some url, showCrop := True\<rparr>))"

definition onCropComplete :: "PageState \<Rightarrow> PixelCrop \<Rightarrow> PageState" where
  "onCropComplete st cp = st\<lparr>croppedAreaPixels := Some cp\<rparr>"

definition reset_crop :: "PageState \<Rightarrow> PageState" where
  "reset_crop st = st\<lparr>showCrop := False, imageSrc := None, crop := (0, 0), zoom := 1\<rparr>"

text \<open>
  \<open>applyCrop\<close>: the \<open>try\<close> block sets the texture only after \<open>getCroppedImg\<close> has
  resolved; the \<open>catch\<close> block only logs.
\<close>

definition applyCrop :: "('img, 'blob) Browser \<Rightarrow> PageState \<Rightarrow> PageState" where
  "applyCrop B st =
     reset_crop
       (case (imageSrc st, croppedAreaPixels st, selectedPart st) of
          (Some src, Some area, Some p) \<Rightarrow>
            (if truthy (imageSrc st) then
               (case getCroppedImg B src area of
                  Inr blob \<Rightarrow> st\<lparr>textures := (textures st)(p := Some (createObjectURL B blob))\<rparr>
                | Inl e \<Rightarrow> st)
             else st)
        | _ \<Rightarrow> st)"

definition cancelCrop :: "PageState \<Rightarrow> PageState" where
  "cancelCrop st = reset_crop st"

datatype MappingKey = Key_offsetX | Key_offsetY | Key_scale

fun Mapping_with :: "Mapping \<Rightarrow> MappingKey \<Rightarrow> real \<Rightarrow> Mapping" where
  "Mapping_with m Key_offsetX v = m\<lparr>offsetX := v\<rparr>"
| "Mapping_with m Key_offsetY v = m\<lparr>offsetY := v\<rparr>"
| "Mapping_with m Key_scale v = m\<lparr>scale := v\<rparr>"

definition updateMapping :: "PageState \<Rightarrow> MappingKey \<Rightarrow> real \<Rightarrow> PageState" where
  "updateMapping st k v =
     (case selectedPart st of
        None \<Rightarrow> st
      | Some p \<Rightarrow> st\<lparr>mappings := (mappings st)(p := Mapping_with (mappings st p) k v)\<rparr>)"

subsection \<open>The page as a transition system\<close>

datatype Event =
  Message MessageData
| Toggle
| PointerDown string
| PointerMissed
| FileChange "string option"
| CropComplete PixelCrop
| ApplyCrop
| CancelCrop
| UpdateMapping MappingKey real

fun step :: "('img, 'blob) Browser \<Rightarrow> PageState \<Rightarrow> Event \<Rightarrow> PageState" where
  "step B st (Message d) = handler st d"
| "step B st Toggle = toggleInteractive st"
| "step B st (PointerDown hit) = onPointerDown st hit"
| "step B st PointerMissed = onPointerMissed st"
| "step B st (FileChange file) = onFileChange st file"
| "step B st (CropComplete cp) = onCropComplete st cp"
| "step B st ApplyCrop = applyCrop B st"
| "step B st CancelCrop = cancelCrop st"
| "step B st (UpdateMapping k v) = updateMapping st k v"

definition run :: "('img, 'blob) Browser \<Rightarrow> PageState \<Rightarrow> Event list \<Rightarrow> PageState" where
  "run B st evs = foldl (step B) st evs"

text \<open>
  The customization state proper: the part of the page state that the reconciliation
  reads (colors, textures, mappings, the selection and the interaction flag).
\<close>

definition customization ::
  "PageState \<Rightarrow>
   (PartName \<Rightarrow> string) \<times> (PartName \<Rightarrow> string option) \<times> (PartName \<Rightarrow> Mapping) \<times>
   PartName option \<times> bool"
where
  "customization st =
     (colors st, textures st, mappings st, selectedPart st, interactive st)"

section \<open>The scene graph and the reconciliation effect of \<open>Model\<close>\<close>

text \<open>
  The scene belongs to the rendering engine. What the effect reads and writes of it is a
  store of objects, a store of materials and a store of highlight line objects; a
  reference is an index into its store, and a new object is appended, so that a fresh
  reference never meets an old one. Several meshes may hold the same material
  reference.
\<close>

type_synonym ref = nat

definition lookup :: "'a list \<Rightarrow> ref \<Rightarrow> 'a option" where
  "lookup xs r = (if r < length xs then Some (xs ! r) else None)"

datatype Wrapping = ClampToEdgeWrapping | RepeatWrapping | MirroredRepeatWrapping

record Texture =
  src :: string
  flipY :: bool
  wrapS :: Wrapping
  wrapT :: Wrapping
  anisotropy :: real
  repeat :: "real \<times> real"
  offset :: "real \<times> real"

text \<open>
  A material, as far as the effects touch it. \<open>None\<close> in \<open>color\<close>, \<open>roughness\<close> or
  \<open>metalness\<close> says that the material has no such property (index.tsx asks with
  \<open>hasColorProp\<close> and \<open>'roughness' in m\<close>; page.tsx types its materials as
  \<open>MeshStandardMaterial\<close>, which has all three). \<open>color\<close> holds the style string last
  given to \<open>color.set\<close>.
\<close>

record Material =
  color :: "string option"
  map_tex :: "Texture option"
  normalMap :: "Texture option"
  roughnessMap :: "Texture option"
  metalnessMap :: "Texture option"
  bumpMap :: "Texture option"
  aoMap :: "Texture option"
  roughness :: "real option"
  metalness :: "real option"
  needsUpdate :: bool

text \<open>\<open>mesh.material\<close> is one material or an array of them.\<close>

datatype MaterialSlot = Single ref | Array "ref list"

text \<open>
  An object of the scene graph with the two \<open>userData\<close> entries of the effect.
  \<open>children\<close> lists the line objects attached to it (no other child is touched).
\<close>

record Object3D =
  name :: string
  isMesh :: bool
  geometry :: nat
  material :: MaterialSlot
  cloned :: bool
  outline :: "ref option"
  children :: "ref list"

text \<open>
  \<open>new THREE.LineSegments(new THREE.EdgesGeometry(geometry, 15),
  new THREE.LineBasicMaterial({ color: 0xffff00 }))\<close>, with the two disposals recorded.
\<close>

record LineSegments =
  edges_of :: nat
  thresholdAngle :: nat
  line_color :: int
  renderOrder :: int
  depthTest :: bool
  geometry_disposed :: bool
  material_disposed :: bool

text \<open>
  \<open>nodes\<close> is the loader's table, \<open>getObjectByName\<close> the engine's search of the graph
  (line objects are created without a name, so the effect does not change what a part
  name finds).
\<close>

record Scene =
  nodes :: "string \<Rightarrow> ref option"
  getObjectByName :: "string \<Rightarrow> ref option"
  objs :: "Object3D list"
  mats :: "Material list"
  lines :: "LineSegments list"

text \<open>\<open>nodes[name] || scene.getObjectByName(name)\<close>\<close>

definition resolve :: "Scene \<Rightarrow> PartName \<Rightarrow> ref option" where
  "resolve s p =
     (case nodes s (PartName_string p) of
        Some r \<Rightarrow> Some r
      | None \<Rightarrow> getObjectByName s (PartName_string p))"

text \<open>\<open>Array.isArray(mesh.material) ? mesh.material : [mesh.material]\<close>\<close>

fun materials_of :: "MaterialSlot \<Rightarrow> ref list" where
  "materials_of (Single r) = [r]"
| "materials_of (Array rs) = rs"

subsection \<open>Clone on first touch\<close>

text \<open>
  \<open>originals.map((m) => m.clone())\<close>: every clone is a new material with the
  original's properties. (A reference always denotes a material; the \<open>None\<close> branch
  keeps the function total.)
\<close>

fun clone_all :: "Material list \<Rightarrow> ref list \<Rightarrow> Material list \<times> ref list" where
  "clone_all ms [] = (ms, [])"
| "clone_all ms (r # rs) =
     (case lookup ms r of
        Some m \<Rightarrow> (case clone_all (ms @ [m]) rs of (ms', cs) \<Rightarrow> (ms', length ms # cs))
      | None \<Rightarrow> (case clone_all ms rs of (ms', cs) \<Rightarrow> (ms', r # cs)))"

text \<open>\<open>Array.isArray(mesh.material) ? clones : clones[0]\<close>\<close>

fun clones_slot :: "MaterialSlot \<Rightarrow> ref list \<Rightarrow> MaterialSlot" where
  "clones_slot (Array rs) cs = Array cs"
| "clones_slot (Single r) (c # cs) = Single c"
| "clones_slot (Single r) [] = Single r"

definition clone_material :: "ref \<Rightarrow> Scene \<Rightarrow> Scene" where
  "clone_material r s =
     (case lookup (objs s) r of
        None \<Rightarrow> s
      | Some mesh \<Rightarrow>
          if cloned mesh then s
          else
            (case clone_all (mats s) (materials_of (material mesh)) of
               (ms', clones) \<Rightarrow>
                 s\<lparr>objs := (objs s)[r := mesh\<lparr>material := clones_slot (material mesh) clones,
                                                 cloned := True\<rparr>],
                   mats := ms'\<rparr>))"

subsection \<open>The visual source of a material\<close>

text \<open>\<open>loader.load(url)\<close>: a new texture with the engine's defaults.\<close>

definition TextureLoader_load :: "string \<Rightarrow> Texture" where
  "TextureLoader_load url =
     \<lparr>src = url, flipY = True, wrapS = ClampToEdgeWrapping, wrapT = ClampToEdgeWrapping,
      anisotropy = 1, repeat = (1, 1), offset = (0, 0)\<rparr>"

text \<open>The callback of \<open>materials.forEach\<close> in page.tsx.\<close>

definition Model_material :: "PageState \<Rightarrow> real \<Rightarrow> PartName \<Rightarrow> Material \<Rightarrow> Material" where
  "Model_material st maxAniso p mat0 =
     (let mat = mat0\<lparr>map_tex := None\<rparr>;
          mat =
            (if truthy (textures st p) then
               (case textures st p of
                  Some url \<Rightarrow>
                    (let tex = TextureLoader_load url;
                         tex = tex\<lparr>flipY := False\<rparr>;
                         tex = tex\<lparr>wrapS := RepeatWrapping\<rparr>;
                         tex = tex\<lparr>wrapT := RepeatWrapping\<rparr>;
                         tex = tex\<lparr>anisotropy := maxAniso\<rparr>
                     in mat\<lparr>map_tex := Some tex, color := Some ''#ffffff''\<rparr>)
                | None \<Rightarrow> mat)
             else mat\<lparr>color := Some (colors st p)\<rparr>);
          mat =
            (case map_tex mat of
               Some tex \<Rightarrow>
                 (let m = mappings st p;
                      tile = 2 * scale m
                  in mat\<lparr>map_tex :=
                           Some (tex\<lparr>repeat := (tile, tile),
                                      offset := (offsetX m, offsetY m)\<rparr>)\<rparr>)
             | None \<Rightarrow> mat)
      in mat\<lparr>roughness := Some 1, metalness := Some 0, needsUpdate := True\<rparr>)"

text \<open>
  The callback of \<open>mats.forEach\<close> in index.tsx, the variant without textures: it
  returns at once on a material without a settable color, sets the six maps to
  \<open>null\<close>, and sets \<open>roughness\<close> and \<open>metalness\<close> where the material has them.
\<close>

definition hasColorProp :: "Material \<Rightarrow> bool" where
  "hasColorProp mat = (color mat \<noteq> None)"

definition index_material :: "(PartName \<Rightarrow> string) \<Rightarrow> PartName \<Rightarrow> Material \<Rightarrow> Material" where
  "index_material cols p m0 =
     (if \<not> hasColorProp m0 then m0
      else
        (let m = m0\<lparr>map_tex := None, normalMap := None, roughnessMap := None,
                     metalnessMap := None, bumpMap := None, aoMap := None\<rparr>;
             m = (case roughness m of Some x \<Rightarrow> m\<lparr>roughness := Some 1\<rparr> | None \<Rightarrow> m);
             m = (case metalness m of Some x \<Rightarrow> m\<lparr>metalness := Some 0\<rparr> | None \<Rightarrow> m)
         in m\<lparr>color := Some (cols p), needsUpdate := True\<rparr>))"

text \<open>\<open>materials.forEach(f)\<close> over the references of a slot.\<close>

fun forEach_material :: "(Material \<Rightarrow> Material) \<Rightarrow> ref list \<Rightarrow> Material list \<Rightarrow> Material list" where
  "forEach_material f [] ms = ms"
| "forEach_material f (r # rs) ms =
     forEach_material f rs (case lookup ms r of Some m \<Rightarrow> ms[r := f m] | None \<Rightarrow> ms)"

definition apply_materials :: "(Material \<Rightarrow> Material) \<Rightarrow> ref \<Rightarrow> Scene \<Rightarrow> Scene" where
  "apply_materials f r s =
     (case lookup (objs s) r of
        None \<Rightarrow> s
      | Some mesh \<Rightarrow> s\<lparr>mats := forEach_material f (materials_of (material mesh)) (mats s)\<rparr>)"

subsection \<open>The highlight outline\<close>

definition dispose :: "ref \<Rightarrow> LineSegments list \<Rightarrow> LineSegments list" where
  "dispose l ls =
     (case lookup ls l of
        None \<Rightarrow> ls
      | Some x \<Rightarrow> ls[l := x\<lparr>geometry_disposed := True, material_disposed := True\<rparr>])"

definition remove_outline :: "ref \<Rightarrow> Scene \<Rightarrow> Scene" where
  "remove_outline r s =
     (case lookup (objs s) r of
        None \<Rightarrow> s
      | Some mesh \<Rightarrow>
          (case outline mesh of
             None \<Rightarrow> s
           | Some l \<Rightarrow>
               s\<lparr>objs := (objs s)[r := mesh\<lparr>children := remove1 l (children mesh),
                                               outline := None\<rparr>],
                 lines := dispose l (lines s)\<rparr>))"

definition new_outline :: "Object3D \<Rightarrow> LineSegments" where
  "new_outline mesh =
     \<lparr>edges_of = geometry mesh, thresholdAngle = 15, line_color = 0xffff00,
      renderOrder = 999, depthTest = False,
      geometry_disposed = False, material_disposed = False\<rparr>"

definition add_outline :: "ref \<Rightarrow> Scene \<Rightarrow> Scene" where
  "add_outline r s =
     (case lookup (objs s) r of
        None \<Rightarrow> s
      | Some mesh \<Rightarrow>
          s\<lparr>objs := (objs s)[r := mesh\<lparr>children := children mesh @ [length (lines s)],
                                          outline := Some (length (lines s))\<rparr>],
            lines := lines s @ [new_outline mesh]\<rparr>)"

subsection \<open>One pass\<close>

text \<open>
  The callback of \<open>PART_NAMES.forEach\<close>: \<open>touch_mesh\<close> is what it does to a mesh it
  has found, with \<open>b\<close> the test \<open>interactive && name === selectedPart\<close>. The effects of
  page.tsx and of index.tsx are the same but for the callback \<open>f\<close> given to \<open>forEach\<close>
  over the materials.
\<close>

definition touch_mesh :: "(Material \<Rightarrow> Material) \<Rightarrow> bool \<Rightarrow> ref \<Rightarrow> Scene \<Rightarrow> Scene" where
  "touch_mesh f b r s =
     (let s = clone_material r s;
          s = apply_materials f r s;
          s = remove_outline r s
      in if b then add_outline r s else s)"

definition reconcile_part ::
  "(PartName \<Rightarrow> Material \<Rightarrow> Material) \<Rightarrow> bool \<Rightarrow> PartName option \<Rightarrow> PartName \<Rightarrow> Scene \<Rightarrow> Scene"
where
  "reconcile_part f act sel p s =
     (case resolve s p of
        None \<Rightarrow> s
      | Some r \<Rightarrow>
          (case lookup (objs s) r of
             None \<Rightarrow> s
           | Some obj \<Rightarrow>
               if \<not> isMesh obj then s
               else touch_mesh (f p) (act \<and> sel = Some p) r s))"

definition reconcile ::
  "(PartName \<Rightarrow> Material \<Rightarrow> Material) \<Rightarrow> bool \<Rightarrow> PartName option \<Rightarrow> Scene \<Rightarrow> Scene"
where
  "reconcile f act sel s = fold (reconcile_part f act sel) PART_NAMES s"

text \<open>The effect of \<open>Model\<close> in page.tsx, run with the props of a render.\<close>

definition Model_effect :: "PageState \<Rightarrow> real \<Rightarrow> Scene \<Rightarrow> Scene" where
  "Model_effect st maxAniso s =
     reconcile (Model_material st maxAniso) (interactive st) (selectedPart st) s"

text \<open>The effect of \<open>Model\<close> in index.tsx (colors only).\<close>

definition Model_effect_index ::
  "(PartName \<Rightarrow> string) \<Rightarrow> PartName option \<Rightarrow> bool \<Rightarrow> Scene \<Rightarrow> Scene"
where
  "Model_effect_index cols sel act s = reconcile (index_material cols) act sel s"

text \<open>
  A session: the effect runs again on every render whose dependencies changed, each
  time with the props of that render.
\<close>

definition Model_effects :: "(PageState \<times> real) list \<Rightarrow> Scene \<Rightarrow> Scene" where
  "Model_effects renders s = fold (\<lambda>(st, maxAniso). Model_effect st maxAniso) renders s"

subsection \<open>Texture loads\<close>

text \<open>
  \<open>loader.load(url)\<close> returns a texture object at once; the engine decodes the image
  later and stores it in that object. The effect gives \<open>load\<close> no completion callback,
  so no code of the page runs when a load completes. To follow which texture object a
  material holds, a session keeps, beside the scene, every texture object created so
  far (its index is its identity) and, for every material, the texture object that was
  last assigned to its \<open>map\<close> by the effect.
\<close>

record TextureObject =
  load_url :: string
  loaded_image :: "string option"

record Session =
  scene :: Scene
  texobjs :: "TextureObject list"
  installed :: "ref \<Rightarrow> nat option"

text \<open>
  What the material callback of page.tsx does to \<open>mat.map\<close> of material \<open>j\<close>:
  \<open>mat.map = null\<close>, and with a texture reference \<open>mat.map = loader.load(...)\<close>.
\<close>

definition register_map :: "PageState \<Rightarrow> PartName \<Rightarrow> ref \<Rightarrow> Session \<Rightarrow> Session" where
  "register_map st p j ss =
     (case lookup (mats (scene ss)) j of
        None \<Rightarrow> ss
      | Some m \<Rightarrow>
          (case textures st p of
             Some u \<Rightarrow>
               if truthy (textures st p)
               then ss\<lparr>texobjs := texobjs ss @ [\<lparr>load_url = u, loaded_image = None\<rparr>],
                       installed := (installed ss)(j \<mapsto> length (texobjs ss))\<rparr>
               else ss\<lparr>installed := (installed ss)(j := None)\<rparr>
           | None \<Rightarrow> ss\<lparr>installed := (installed ss)(j := None)\<rparr>))"

text \<open>
  The callback of \<open>PART_NAMES.forEach\<close> on a session: the scene changes as in
  \<open>reconcile_part\<close>, and the loads of the materials of the mesh are recorded in the order
  of \<open>materials.forEach\<close>.
\<close>

definition session_part :: "PageState \<Rightarrow> real \<Rightarrow> PartName \<Rightarrow> Session \<Rightarrow> Session" where
  "session_part st maxAniso p ss =
     (let s' = reconcile_part (Model_material st maxAniso) (interactive st) (selectedPart st)
                 p (scene ss);
          ss' = ss\<lparr>scene := s'\<rparr>
      in case resolve (scene ss) p of
           None \<Rightarrow> ss'
         | Some r \<Rightarrow>
             (case lookup (objs (scene ss)) r of
                None \<Rightarrow> ss'
              | Some obj \<Rightarrow>
                  if \<not> isMesh obj then ss'
                  else fold (register_map st p) (materials_of (material (objs s' ! r))) ss'))"

definition session_effect :: "PageState \<Rightarrow> real \<Rightarrow> Session \<Rightarrow> Session" where
  "session_effect st maxAniso ss = fold (session_part st maxAniso) PART_NAMES ss"

text \<open>
  A load completes: the engine stores the decoded image in the texture object the load
  was started for. The page state is no argument: nothing is compared with the texture
  reference the part has by then.
\<close>

definition load_complete :: "nat \<Rightarrow> string \<Rightarrow> Session \<Rightarrow> Session" where
  "load_complete k img ss =
     (case lookup (texobjs ss) k of
        None \<Rightarrow> ss
      | Some t \<Rightarrow> ss\<lparr>texobjs := (texobjs ss)[k := t\<lparr>loaded_image := Some img\<rparr>]\<rparr>)"

definition load_completions :: "(nat \<times> string) list \<Rightarrow> Session \<Rightarrow> Session" where
  "load_completions cs ss = fold (\<lambda>(k, img). load_complete k img) cs ss"

text \<open>The image a material shows: that of the texture object its map holds, once loaded.\<close>

definition shown :: "Session \<Rightarrow> ref \<Rightarrow> string option" where
  "shown ss j =
     (case installed ss j of
        None \<Rightarrow> None
      | Some k \<Rightarrow> (case lookup (texobjs ss) k of None \<Rightarrow> None | Some t \<Rightarrow> loaded_image t))"

text \<open>
  Material \<open>j\<close> holds a texture object for \<open>u\<close> that was created at or after the
  \<open>n\<close>-th load and is still waiting for its image.
\<close>

definition fresh_for :: "string \<Rightarrow> nat \<Rightarrow> Session \<Rightarrow> ref \<Rightarrow> bool" where
  "fresh_for u n ss j =
     (\<exists>k. installed ss j = Some k \<and> n \<le> k \<and> k < length (texobjs ss) \<and>
          texobjs ss ! k = \<lparr>load_url = u, loaded_image = None\<rparr>)"

subsection \<open>Well-formed scenes\<close>

text \<open>
  Every material reference of an object denotes a material; a mesh whose materials
  were cloned shares none of them with another object; and what a part name finds is
  an object of that name. All three hold of a freshly loaded scene in which no mesh
  is marked, and every pass keeps them.
\<close>

definition refs_valid :: "Scene \<Rightarrow> bool" where
  "refs_valid s =
     (\<forall>i < length (objs s). \<forall>r \<in> set (materials_of (material (objs s ! i))).
        r < length (mats s))"

definition unshared :: "Scene \<Rightarrow> bool" where
  "unshared s =
     (\<forall>i < length (objs s). \<forall>j < length (objs s).
        cloned (objs s ! i) \<longrightarrow> i \<noteq> j \<longrightarrow>
        set (materials_of (material (objs s ! i))) \<inter>
        set (materials_of (material (objs s ! j))) = {})"

definition named :: "Scene \<Rightarrow> bool" where
  "named s =
     (\<forall>p \<in> set PART_NAMES. \<forall>r. resolve s p = Some r \<longrightarrow> r < length (objs s) \<longrightarrow>
        name (objs s ! r) = PartName_string p)"

definition wf_scene :: "Scene \<Rightarrow> bool" where
  "wf_scene s = (refs_valid s \<and> unshared s \<and> named s)"

text \<open>
  The overlay invariant: the line objects attached to an object are exactly the one
  recorded in its \<open>userData.outline\<close>, if any; and every line object ever created is
  either the recorded outline of some object or has had its geometry and its material
  disposed.
\<close>

definition outline_list :: "Object3D \<Rightarrow> ref list" where
  "outline_list obj = (case outline obj of None \<Rightarrow> [] | Some l \<Rightarrow> [l])"

definition attached :: "Scene \<Rightarrow> ref \<Rightarrow> bool" where
  "attached s l = (\<exists>i < length (objs s). outline (objs s ! i) = Some l)"

definition released :: "Scene \<Rightarrow> ref \<Rightarrow> bool" where
  "released s l =
     (l < length (lines s) \<and> geometry_disposed (lines s ! l) \<and> material_disposed (lines s ! l))"

definition overlay_inv :: "Scene \<Rightarrow> bool" where
  "overlay_inv s =
     ((\<forall>i < length (objs s). children (objs s ! i) = outline_list (objs s ! i)) \<and>
      (\<forall>i < length (objs s). \<forall>l. outline (objs s ! i) = Some l \<longrightarrow> l < length (lines s)) \<and>
      (\<forall>l < length (lines s). attached s l \<or> released s l))"

section \<open>Sample inputs\<close>

text \<open>
  A browser that decodes every non-empty URL to a 400 by 300 image and serialises a
  canvas of positive size to a blob that records the type asked for and the size of
  the canvas.
\<close>

definition sample_browser :: "(int \<times> int, string \<times> int \<times> int) Browser" where
  "sample_browser =
     \<lparr>createImage = (\<lambda>url. if url = [] then None else Some (400, 300)),
      toBlob = (\<lambda>cv ty. if 0 < width cv \<and> 0 < height cv
                          then Some (ty, width cv, height cv) else None),
      createObjectURL = (\<lambda>b. ''blob:crop'')\<rparr>"

definition sample_crop :: PixelCrop where
  "sample_crop = \<lparr>crop_x = 50, crop_y = 50, crop_width = 100, crop_height = 100\<rparr>"

text \<open>
  A scene of two meshes that share one material at load time, as the loader may
  deliver them; the material carries baked maps.
\<close>

definition sample_texture :: Texture where
  "sample_texture =
     \<lparr>src = ''baked.png'', flipY = True, wrapS = RepeatWrapping, wrapT = RepeatWrapping,
      anisotropy = 1, repeat = (1, 1), offset = (0, 0)\<rparr>"

definition sample_material :: Material where
  "sample_material =
     \<lparr>color = Some ''#808080'', map_tex = Some sample_texture,
      normalMap = Some sample_texture, roughnessMap = None, metalnessMap = None,
      bumpMap = None, aoMap = None,
      roughness = Some (1 / 2), metalness = Some 1, needsUpdate = False\<rparr>"

definition sample_scene :: Scene where
  "sample_scene =
     \<lparr>nodes = (\<lambda>n. if n = ''midsole'' then Some 0 else if n = ''logo'' then Some 1 else None),
      getObjectByName = (\<lambda>n. None),
      objs = [\<lparr>name = ''midsole'', isMesh = True, geometry = 7, material = Single 0,
               cloned = False, outline = None, children = []\<rparr>,
              \<lparr>name = ''logo'', isMesh = True, geometry = 8, material = Array [0, 0],
               cloned = False, outline = None, children = []\<rparr>],
      mats = [sample_material],
      lines = []\<rparr>"

text \<open>
  The state after the two messages \<open>{part: "midsole", color: "#ff0000", mapping}\<close> and
  \<open>{part: "midsole", image: "blob:1"}\<close>.
\<close>

definition sample_mapping :: Mapping where
  "sample_mapping = \<lparr>offsetX = 1 / 4, offsetY = - (1 / 10), scale = 2\<rparr>"

definition sample_state :: PageState where
  "sample_state =
     handler
       (handler Page_init (MessageData ''midsole'' (Some ''#ff0000'') (Some sample_mapping) None))
       (MessageData ''midsole'' None None (Some ''blob:1''))"

text \<open>
  A session on the freshly loaded sample scene, and the state after one more message,
  \<open>{part: "midsole", image: "blob:2"}\<close>.
\<close>

definition sample_session :: Session where
  "sample_session = \<lparr>scene = sample_scene, texobjs = [], installed = (\<lambda>j. None)\<rparr>"

definition sample_state2 :: PageState where
  "sample_state2 = handler sample_state (MessageData ''midsole'' None None (Some ''blob:2''))"

text \<open>
  The sample state with the midsole selected by a pointer-down, and then with
  interaction toggled off.
\<close>

definition sample_selected :: PageState where
  "sample_selected = onPointerDown sample_state ''midsole''"

definition sample_deselected :: PageState where
  "sample_deselected = toggleInteractive sample_selected"

section \<open>Properties of the customization state\<close>

lemma includes_part_string [simp]: "includes_part (PartName_string p) = Some p"
  by (cases p) (simp_all add: includes_part_def PART_NAMES_def)

lemma includes_part_Some: "includes_part s = Some p \<Longrightarrow> PartName_string p = s"
  unfolding includes_part_def by (auto simp: find_Some_iff)

lemma includes_part_None:
  "includes_part s = None \<longleftrightarrow> s \<notin> PartName_string ` set PART_NAMES"
  unfolding includes_part_def by (auto simp: find_None_iff)

lemma PART_NAMES_all [simp]: "p \<in> set PART_NAMES"
  by (cases p) (simp_all add: PART_NAMES_def)

lemma PART_NAMES_distinct: "distinct PART_NAMES"
  by (simp add: PART_NAMES_def)

lemma initialColors_reduce:
  "fold (\<lambda>p acc. acc(p := ''#ffffff'')) PART_NAMES acc0 = initialColors"
proof
  fix p show "fold (\<lambda>p acc. acc(p := ''#ffffff'')) PART_NAMES acc0 p = initialColors p"
    by (cases p) (simp_all add: PART_NAMES_def initialColors_def)
qed

lemma step_keeps_deselected:
  assumes "\<not> interactive st \<longrightarrow> selectedPart st = None"
  shows "\<not> interactive (step B st ev) \<longrightarrow> selectedPart (step B st ev) = None"
proof (cases ev)
  case (Message d)
  then show ?thesis using assms
    by (cases d) (auto simp: handler_color_def handler_mapping_def handler_image_def Let_def
        split: option.splits)
next
  case Toggle
  then show ?thesis using assms by (simp add: toggleInteractive_def Let_def)
next
  case (PointerDown hit)
  then show ?thesis using assms by (simp add: onPointerDown_def)
next
  case PointerMissed
  then show ?thesis using assms by (simp add: onPointerMissed_def)
next
  case (FileChange fl)
  then show ?thesis using assms by (auto simp: onFileChange_def split: option.splits)
next
  case (CropComplete cp)
  then show ?thesis using assms by (simp add: onCropComplete_def)
next
  case ApplyCrop
  then show ?thesis using assms
    by (auto simp: applyCrop_def reset_crop_def split: option.splits sum.splits)
next
  case CancelCrop
  then show ?thesis using assms by (simp add: cancelCrop_def reset_crop_def)
next
  case (UpdateMapping k v)
  then show ?thesis using assms by (auto simp: updateMapping_def split: option.splits)
qed

lemma run_keeps_deselected:
  assumes "\<not> interactive st \<longrightarrow> selectedPart st = None"
  shows "\<not> interactive (run B st evs) \<longrightarrow> selectedPart (run B st evs) = None"
  using assms unfolding run_def
proof (induction evs arbitrary: st)
  case Nil
  then show ?case by simp
next
  case (Cons ev evs)
  show ?case using Cons.IH [OF step_keeps_deselected [OF Cons.prems]] by simp
qed

section \<open>The scene: frame facts and well-formedness\<close>

subsection \<open>Frame facts of the four operations\<close>

lemma lookup_Some_iff: "lookup xs r = Some x \<longleftrightarrow> r < length xs \<and> xs ! r = x"
  by (auto simp: lookup_def)

lemma lookup_None_iff: "lookup xs r = None \<longleftrightarrow> length xs \<le> r"
  by (auto simp: lookup_def)

lemma clone_all_valid:
  "\<forall>r \<in> set rs. r < length ms \<Longrightarrow>
   clone_all ms rs = (ms @ map ((!) ms) rs, [length ms ..< length ms + length rs])"
proof (induction rs arbitrary: ms)
  case Nil
  then show ?case by simp
next
  case (Cons r rs)
  have r: "r < length ms" and rs: "\<forall>x \<in> set rs. x < length ms"
    using Cons.prems by simp_all
  have "\<forall>x \<in> set rs. x < length (ms @ [ms ! r])" using rs by auto
  from Cons.IH [OF this]
  have "clone_all (ms @ [ms ! r]) rs =
          ((ms @ [ms ! r]) @ map ((!) (ms @ [ms ! r])) rs,
           [Suc (length ms) ..< Suc (length ms) + length rs])"
    by simp
  moreover have "map ((!) (ms @ [ms ! r])) rs = map ((!) ms) rs"
    using rs by (simp add: nth_append)
  moreover have "length ms # [Suc (length ms) ..< Suc (length ms) + length rs] =
      [length ms ..< length ms + length (r # rs)]"
    using upt_conv_Cons [of "length ms" "length ms + Suc (length rs)"] by simp
  ultimately show ?case using r by (simp add: lookup_def)
qed

lemma clone_material_frame [simp]:
  "nodes (clone_material r s) = nodes s"
  "getObjectByName (clone_material r s) = getObjectByName s"
  "lines (clone_material r s) = lines s"
  "length (objs (clone_material r s)) = length (objs s)"
  by (auto simp: clone_material_def lookup_def split: prod.splits)

lemma clone_material_fields [simp]:
  "name (objs (clone_material r s) ! i) = name (objs s ! i)"
  "isMesh (objs (clone_material r s) ! i) = isMesh (objs s ! i)"
  "geometry (objs (clone_material r s) ! i) = geometry (objs s ! i)"
  "outline (objs (clone_material r s) ! i) = outline (objs s ! i)"
  "children (objs (clone_material r s) ! i) = children (objs s ! i)"
  by (auto simp: clone_material_def lookup_def nth_list_update split: prod.splits)

lemma clone_material_other:
  "i \<noteq> r \<Longrightarrow> objs (clone_material r s) ! i = objs s ! i"
  by (auto simp: clone_material_def lookup_def split: prod.splits)

lemma clone_material_cloned:
  "r < length (objs s) \<Longrightarrow> cloned (objs (clone_material r s) ! r)"
  by (auto simp: clone_material_def lookup_def split: prod.splits)

lemma clone_material_already:
  "r < length (objs s) \<Longrightarrow> cloned (objs s ! r) \<Longrightarrow> clone_material r s = s"
  by (simp add: clone_material_def lookup_def)

lemma clone_material_beyond:
  "length (objs s) \<le> r \<Longrightarrow> clone_material r s = s"
  by (simp add: clone_material_def lookup_def)

lemma materials_of_clones_slot:
  "length cs = length (materials_of sl) \<Longrightarrow> materials_of (clones_slot sl cs) = cs"
  by (cases sl; cases cs) simp_all

lemma clone_material_fresh:
  assumes "refs_valid s" "r < length (objs s)" "\<not> cloned (objs s ! r)"
  shows "mats (clone_material r s) =
           mats s @ map ((!) (mats s)) (materials_of (material (objs s ! r)))"
    and "materials_of (material (objs (clone_material r s) ! r)) =
           [length (mats s) ..< length (mats s) +
              length (materials_of (material (objs s ! r)))]"
proof -
  have v: "\<forall>x \<in> set (materials_of (material (objs s ! r))). x < length (mats s)"
    using assms(1,2) by (simp add: refs_valid_def)
  show "mats (clone_material r s) =
           mats s @ map ((!) (mats s)) (materials_of (material (objs s ! r)))"
    using assms(2,3) by (simp add: clone_material_def lookup_def clone_all_valid [OF v])
  show "materials_of (material (objs (clone_material r s) ! r)) =
           [length (mats s) ..< length (mats s) +
              length (materials_of (material (objs s ! r)))]"
    using assms(2,3)
    by (simp add: clone_material_def lookup_def clone_all_valid [OF v] materials_of_clones_slot)
qed

lemma clone_material_mats_prefix:
  assumes "refs_valid s" "j < length (mats s)"
  shows "mats (clone_material r s) ! j = mats s ! j"
    and "length (mats s) \<le> length (mats (clone_material r s))"
proof -
  consider "length (objs s) \<le> r" | "r < length (objs s)" "cloned (objs s ! r)"
    | "r < length (objs s)" "\<not> cloned (objs s ! r)" by linarith
  then have "mats (clone_material r s) ! j = mats s ! j \<and>
      length (mats s) \<le> length (mats (clone_material r s))"
  proof cases
    case 1 then show ?thesis by (simp add: clone_material_beyond)
  next
    case 2 then show ?thesis by (simp add: clone_material_already)
  next
    case 3 then show ?thesis
      using assms by (simp add: clone_material_fresh(1) nth_append)
  qed
  then show "mats (clone_material r s) ! j = mats s ! j"
    and "length (mats s) \<le> length (mats (clone_material r s))" by simp_all
qed


lemma resolve_cong:
  "nodes s' = nodes s \<Longrightarrow> getObjectByName s' = getObjectByName s \<Longrightarrow> resolve s' = resolve s"
  by (rule ext) (simp add: resolve_def split: option.splits)

lemma clone_material_refs_valid:
  assumes "refs_valid s"
  shows "refs_valid (clone_material r s)"
proof -
  consider "length (objs s) \<le> r" | "r < length (objs s)" "cloned (objs s ! r)"
    | "r < length (objs s)" "\<not> cloned (objs s ! r)" by linarith
  then show ?thesis
  proof cases
    case 1 then show ?thesis using assms by (simp add: clone_material_beyond)
  next
    case 2 then show ?thesis using assms by (simp add: clone_material_already)
  next
    case 3
    note fresh = clone_material_fresh [OF assms 3]
    show ?thesis
      unfolding refs_valid_def
    proof (intro allI impI ballI)
      fix i x
      assume i: "i < length (objs (clone_material r s))"
        and x: "x \<in> set (materials_of (material (objs (clone_material r s) ! i)))"
      show "x < length (mats (clone_material r s))"
      proof (cases "i = r")
        case True
        then show ?thesis using x fresh by simp
      next
        case False
        then have "x \<in> set (materials_of (material (objs s ! i)))"
          using x by (simp add: clone_material_other)
        then have "x < length (mats s)" using assms i by (simp add: refs_valid_def)
        then show ?thesis using fresh(1) by simp
      qed
    qed
  qed
qed

lemma clone_material_unshared:
  assumes "refs_valid s" "unshared s"
  shows "unshared (clone_material r s)"
proof -
  consider "length (objs s) \<le> r" | "r < length (objs s)" "cloned (objs s ! r)"
    | "r < length (objs s)" "\<not> cloned (objs s ! r)" by linarith
  then show ?thesis
  proof cases
    case 1 then show ?thesis using assms by (simp add: clone_material_beyond)
  next
    case 2 then show ?thesis using assms by (simp add: clone_material_already)
  next
    case 3
    note fresh = clone_material_fresh [OF assms(1) 3]
    have old: "\<And>i x. i < length (objs s) \<Longrightarrow> x \<in> set (materials_of (material (objs s ! i)))
        \<Longrightarrow> x < length (mats s)"
      using assms(1) by (simp add: refs_valid_def)
    show ?thesis
      unfolding unshared_def
    proof (intro allI impI)
      fix i j
      assume i: "i < length (objs (clone_material r s))"
        and j: "j < length (objs (clone_material r s))"
        and c: "cloned (objs (clone_material r s) ! i)" and ne: "i \<noteq> j"
      let ?R = "\<lambda>k. set (materials_of (material (objs (clone_material r s) ! k)))"
      show "?R i \<inter> ?R j = {}"
      proof (cases "i = r")
        case True
        then have "j \<noteq> r" using ne by simp
        then have "\<forall>x \<in> ?R j. x < length (mats s)"
          using old [of j] j by (simp add: clone_material_other)
        moreover have "\<forall>x \<in> ?R i. length (mats s) \<le> x" using True fresh(2) by simp
        ultimately show ?thesis by fastforce
      next
        case False
        note ir = this
        show ?thesis
        proof (cases "j = r")
          case True
          have "\<forall>x \<in> ?R i. x < length (mats s)"
            using old [of i] i ir by (simp add: clone_material_other)
          moreover have "\<forall>x \<in> ?R j. length (mats s) \<le> x" using True fresh(2) by simp
          ultimately show ?thesis by fastforce
        next
          case False
          then show ?thesis
            using assms(2) i j c ne ir by (simp add: clone_material_other unshared_def)
        qed
      qed
    qed
  qed
qed

lemma clone_material_named: "named s \<Longrightarrow> named (clone_material r s)"
  by (simp add: named_def resolve_cong [of "clone_material r s" s])

lemma clone_material_wf: "wf_scene s \<Longrightarrow> wf_scene (clone_material r s)"
  by (simp add: wf_scene_def clone_material_refs_valid clone_material_unshared
      clone_material_named)

subsection \<open>Applying the material callback\<close>

lemma forEach_material_length [simp]: "length (forEach_material f rs ms) = length ms"
  by (induction rs arbitrary: ms) (simp_all add: lookup_def)

lemma forEach_material_other:
  "j \<notin> set rs \<Longrightarrow> forEach_material f rs ms ! j = ms ! j"
  by (induction rs arbitrary: ms) (auto simp: lookup_def)

lemma forEach_material_applied:
  "j \<in> set rs \<Longrightarrow> j < length ms \<Longrightarrow> \<exists>m0. forEach_material f rs ms ! j = f m0"
proof (induction rs arbitrary: ms)
  case Nil
  then show ?case by simp
next
  case (Cons r rs)
  let ?ms = "case lookup ms r of Some m \<Rightarrow> ms[r := f m] | None \<Rightarrow> ms"
  have len: "length ?ms = length ms" by (simp add: lookup_def)
  show ?case
  proof (cases "j \<in> set rs")
    case True
    from Cons.IH [OF True, of ?ms] Cons.prems(2) len show ?thesis by simp
  next
    case False
    then have "j = r" using Cons.prems(1) by simp
    then have "forEach_material f (r # rs) ms ! j = f (ms ! r)"
      using False Cons.prems(2) by (simp add: forEach_material_other lookup_def)
    then show ?thesis by blast
  qed
qed

lemma apply_materials_frame [simp]:
  "nodes (apply_materials f r s) = nodes s"
  "getObjectByName (apply_materials f r s) = getObjectByName s"
  "lines (apply_materials f r s) = lines s"
  "objs (apply_materials f r s) = objs s"
  "length (mats (apply_materials f r s)) = length (mats s)"
  by (auto simp: apply_materials_def lookup_def)

lemma apply_materials_other:
  "j \<notin> set (materials_of (material (objs s ! r))) \<Longrightarrow>
   mats (apply_materials f r s) ! j = mats s ! j"
  by (auto simp: apply_materials_def lookup_def forEach_material_other)

lemma apply_materials_applied:
  "r < length (objs s) \<Longrightarrow> j \<in> set (materials_of (material (objs s ! r))) \<Longrightarrow>
   j < length (mats s) \<Longrightarrow> \<exists>m0. mats (apply_materials f r s) ! j = f m0"
  by (simp add: apply_materials_def lookup_def forEach_material_applied)

lemma wf_scene_transfer:
  assumes "wf_scene s"
    and "nodes s' = nodes s" "getObjectByName s' = getObjectByName s"
    and "length (objs s') = length (objs s)" "length (mats s') = length (mats s)"
    and "\<And>i. material (objs s' ! i) = material (objs s ! i)"
    and "\<And>i. cloned (objs s' ! i) = cloned (objs s ! i)"
    and "\<And>i. name (objs s' ! i) = name (objs s ! i)"
  shows "wf_scene s'"
  using assms(1)
  by (simp add: wf_scene_def refs_valid_def unshared_def named_def assms(4-8)
      resolve_cong [OF assms(2,3)])

lemma apply_materials_wf: "wf_scene s \<Longrightarrow> wf_scene (apply_materials f r s)"
  by (erule wf_scene_transfer) simp_all

subsection \<open>The outline operations leave materials alone\<close>

lemma remove_outline_frame [simp]:
  "nodes (remove_outline r s) = nodes s"
  "getObjectByName (remove_outline r s) = getObjectByName s"
  "mats (remove_outline r s) = mats s"
  "length (objs (remove_outline r s)) = length (objs s)"
  "length (lines (remove_outline r s)) = length (lines s)"
  by (auto simp: remove_outline_def dispose_def lookup_def split: option.splits)

lemma remove_outline_fields [simp]:
  "name (objs (remove_outline r s) ! i) = name (objs s ! i)"
  "isMesh (objs (remove_outline r s) ! i) = isMesh (objs s ! i)"
  "geometry (objs (remove_outline r s) ! i) = geometry (objs s ! i)"
  "material (objs (remove_outline r s) ! i) = material (objs s ! i)"
  "cloned (objs (remove_outline r s) ! i) = cloned (objs s ! i)"
  by (auto simp: remove_outline_def lookup_def nth_list_update split: option.splits)

lemma remove_outline_other: "i \<noteq> r \<Longrightarrow> objs (remove_outline r s) ! i = objs s ! i"
  by (auto simp: remove_outline_def lookup_def split: option.splits)

lemma add_outline_frame [simp]:
  "nodes (add_outline r s) = nodes s"
  "getObjectByName (add_outline r s) = getObjectByName s"
  "mats (add_outline r s) = mats s"
  "length (objs (add_outline r s)) = length (objs s)"
  by (auto simp: add_outline_def lookup_def)

lemma add_outline_fields [simp]:
  "name (objs (add_outline r s) ! i) = name (objs s ! i)"
  "isMesh (objs (add_outline r s) ! i) = isMesh (objs s ! i)"
  "geometry (objs (add_outline r s) ! i) = geometry (objs s ! i)"
  "material (objs (add_outline r s) ! i) = material (objs s ! i)"
  "cloned (objs (add_outline r s) ! i) = cloned (objs s ! i)"
  by (auto simp: add_outline_def lookup_def nth_list_update)

lemma add_outline_other: "i \<noteq> r \<Longrightarrow> objs (add_outline r s) ! i = objs s ! i"
  by (auto simp: add_outline_def lookup_def)

lemma remove_outline_wf: "wf_scene s \<Longrightarrow> wf_scene (remove_outline r s)"
  by (erule wf_scene_transfer) simp_all

lemma add_outline_wf: "wf_scene s \<Longrightarrow> wf_scene (add_outline r s)"
  by (erule wf_scene_transfer) simp_all


subsection \<open>Touching one mesh\<close>

lemma touch_mesh_frame [simp]:
  "nodes (touch_mesh f b r s) = nodes s"
  "getObjectByName (touch_mesh f b r s) = getObjectByName s"
  "length (objs (touch_mesh f b r s)) = length (objs s)"
  by (simp_all add: touch_mesh_def Let_def)

lemma touch_mesh_fields [simp]:
  "name (objs (touch_mesh f b r s) ! i) = name (objs s ! i)"
  "isMesh (objs (touch_mesh f b r s) ! i) = isMesh (objs s ! i)"
  "geometry (objs (touch_mesh f b r s) ! i) = geometry (objs s ! i)"
  by (simp_all add: touch_mesh_def Let_def)

lemma touch_mesh_material:
  "material (objs (touch_mesh f b r s) ! i) = material (objs (clone_material r s) ! i)"
  "cloned (objs (touch_mesh f b r s) ! i) = cloned (objs (clone_material r s) ! i)"
  "mats (touch_mesh f b r s) = mats (apply_materials f r (clone_material r s))"
  by (simp_all add: touch_mesh_def Let_def)

lemma touch_mesh_wf: "wf_scene s \<Longrightarrow> wf_scene (touch_mesh f b r s)"
  by (simp add: touch_mesh_def Let_def clone_material_wf apply_materials_wf
      remove_outline_wf add_outline_wf)

lemma touch_mesh_other: "i \<noteq> r \<Longrightarrow> objs (touch_mesh f b r s) ! i = objs s ! i"
  by (simp add: touch_mesh_def Let_def add_outline_other remove_outline_other
      clone_material_other)

lemma touch_mesh_beyond: "length (objs s) \<le> r \<Longrightarrow> touch_mesh f b r s = s"
  by (simp add: touch_mesh_def Let_def clone_material_def apply_materials_def
      remove_outline_def add_outline_def lookup_def)

lemma touch_mesh_cloned:
  "r < length (objs s) \<Longrightarrow> cloned (objs (touch_mesh f b r s) ! r)"
  by (simp add: touch_mesh_material clone_material_cloned)

lemma touch_mesh_marked:
  assumes "r < length (objs s)" "cloned (objs s ! r)"
  shows "material (objs (touch_mesh f b r s) ! i) = material (objs s ! i)"
    and "length (mats (touch_mesh f b r s)) = length (mats s)"
  using assms by (simp_all add: touch_mesh_material clone_material_already)

lemma touch_mesh_unmarked:
  assumes "refs_valid s" "r < length (objs s)" "\<not> cloned (objs s ! r)"
  shows "materials_of (material (objs (touch_mesh f b r s) ! r)) =
           [length (mats s) ..< length (mats s) +
              length (materials_of (material (objs s ! r)))]"
    and "length (mats (touch_mesh f b r s)) =
           length (mats s) + length (materials_of (material (objs s ! r)))"
  using clone_material_fresh [OF assms] by (simp_all add: touch_mesh_material)

lemma touch_mesh_other_mats:
  assumes wf: "wf_scene s" and i: "i < length (objs s)" and ne: "i \<noteq> r"
    and j: "j \<in> set (materials_of (material (objs s ! i)))"
  shows "mats (touch_mesh f b r s) ! j = mats s ! j"
proof -
  have rv: "refs_valid s" and us: "unshared s" using wf by (simp_all add: wf_scene_def)
  have jl: "j < length (mats s)" using rv i j by (simp add: refs_valid_def)
  consider "length (objs s) \<le> r" | "r < length (objs s)" "cloned (objs s ! r)"
    | "r < length (objs s)" "\<not> cloned (objs s ! r)" by linarith
  then show ?thesis
  proof cases
    case 1 then show ?thesis by (simp add: touch_mesh_beyond)
  next
    case 2
    then have "set (materials_of (material (objs s ! r))) \<inter>
               set (materials_of (material (objs s ! i))) = {}"
      using us i ne by (simp add: unshared_def)
    then have "j \<notin> set (materials_of (material (objs s ! r)))" using j by blast
    then show ?thesis
      using 2 by (simp add: touch_mesh_material clone_material_already apply_materials_other)
  next
    case 3
    let ?s1 = "clone_material r s"
    have "j \<notin> set (materials_of (material (objs ?s1 ! r)))"
      using clone_material_fresh(2) [OF rv 3] jl by simp
    then have "mats (touch_mesh f b r s) ! j = mats ?s1 ! j"
      by (simp add: touch_mesh_material apply_materials_other)
    then show ?thesis using clone_material_mats_prefix(1) [OF rv jl] by simp
  qed
qed

lemma touch_mesh_self:
  assumes wf: "wf_scene s" and r: "r < length (objs s)"
    and j: "j \<in> set (materials_of (material (objs (touch_mesh f b r s) ! r)))"
  shows "j < length (mats (touch_mesh f b r s)) \<and> (\<exists>m0. mats (touch_mesh f b r s) ! j = f m0)"
proof -
  let ?s1 = "clone_material r s"
  have "refs_valid ?s1" using clone_material_wf [OF wf] by (simp add: wf_scene_def)
  moreover have j1: "j \<in> set (materials_of (material (objs ?s1 ! r)))"
    using j by (simp add: touch_mesh_material)
  ultimately have jl: "j < length (mats ?s1)" using r by (simp add: refs_valid_def)
  have "\<exists>m0. mats (apply_materials f r ?s1) ! j = f m0"
    using apply_materials_applied [of r ?s1 j f] r j1 jl by simp
  then show ?thesis using jl by (simp add: touch_mesh_material)
qed

subsection \<open>One part, and the whole pass\<close>

lemma reconcile_part_cases:
  obtains (skip) "reconcile_part f act sel p s = s"
      "\<And>r. resolve s p = Some r \<Longrightarrow> r < length (objs s) \<Longrightarrow> \<not> isMesh (objs s ! r)"
  | (touch) r where "resolve s p = Some r" "r < length (objs s)" "isMesh (objs s ! r)"
      "reconcile_part f act sel p s = touch_mesh (f p) (act \<and> sel = Some p) r s"
  by (cases "resolve s p"; cases "lookup (objs s) (the (resolve s p))")
     (auto simp: reconcile_part_def lookup_def split: if_splits)

lemma reconcile_part_frame [simp]:
  "nodes (reconcile_part f act sel p s) = nodes s"
  "getObjectByName (reconcile_part f act sel p s) = getObjectByName s"
  "length (objs (reconcile_part f act sel p s)) = length (objs s)"
  "name (objs (reconcile_part f act sel p s) ! i) = name (objs s ! i)"
  "isMesh (objs (reconcile_part f act sel p s) ! i) = isMesh (objs s ! i)"
  "geometry (objs (reconcile_part f act sel p s) ! i) = geometry (objs s ! i)"
  by (cases rule: reconcile_part_cases [of f act sel p s]; simp)+

lemma reconcile_part_resolve [simp]: "resolve (reconcile_part f act sel p s) = resolve s"
  by (rule resolve_cong) simp_all

lemma reconcile_part_wf: "wf_scene s \<Longrightarrow> wf_scene (reconcile_part f act sel p s)"
  by (cases rule: reconcile_part_cases [of f act sel p s]) (simp_all add: touch_mesh_wf)

lemma reconcile_part_other:
  assumes "resolve s p \<noteq> Some i"
  shows "objs (reconcile_part f act sel p s) ! i = objs s ! i"
  by (cases rule: reconcile_part_cases [of f act sel p s])
     (use assms in \<open>auto simp: touch_mesh_other\<close>)

lemma reconcile_part_other_mats:
  assumes "wf_scene s" "resolve s p \<noteq> Some i" "i < length (objs s)"
    and "j \<in> set (materials_of (material (objs s ! i)))"
  shows "mats (reconcile_part f act sel p s) ! j = mats s ! j"
proof (cases rule: reconcile_part_cases [of f act sel p s])
  case skip
  then show ?thesis by simp
next
  case (touch r)
  then have "i \<noteq> r" using assms(2) by auto
  then show ?thesis
    using touch(4) touch_mesh_other_mats [OF assms(1,3) _ assms(4)] by simp
qed

lemma reconcile_part_self:
  assumes "wf_scene s" "resolve s p = Some r" "r < length (objs s)" "isMesh (objs s ! r)"
    and "j \<in> set (materials_of (material (objs (reconcile_part f act sel p s) ! r)))"
  shows "j < length (mats (reconcile_part f act sel p s)) \<and>
         (\<exists>m0. mats (reconcile_part f act sel p s) ! j = f p m0)"
proof (cases rule: reconcile_part_cases [of f act sel p s])
  case skip
  then show ?thesis using assms(2-4) by blast
next
  case (touch r')
  then have "r' = r" using assms(2) by simp
  then show ?thesis
    using touch(4) touch_mesh_self [OF assms(1,3), of j "f p" "act \<and> sel = Some p"] assms(5)
    by simp
qed


lemma PartName_string_inj: "PartName_string p = PartName_string q \<Longrightarrow> p = q"
  by (cases p; cases q) simp_all

lemma named_unique:
  assumes "named s" "resolve s p = Some r" "resolve s q = Some r" "r < length (objs s)"
  shows "p = q"
proof -
  have "\<And>x. resolve s x = Some r \<Longrightarrow> name (objs s ! r) = PartName_string x"
    using assms(1,4) unfolding named_def by (metis PART_NAMES_all)
  then have "name (objs s ! r) = PartName_string p" "name (objs s ! r) = PartName_string q"
    using assms(2,3) by blast+
  then show ?thesis by (simp add: PartName_string_inj)
qed

lemma fold_part_frame [simp]:
  "nodes (fold (reconcile_part f act sel) ps s) = nodes s"
  "getObjectByName (fold (reconcile_part f act sel) ps s) = getObjectByName s"
  "length (objs (fold (reconcile_part f act sel) ps s)) = length (objs s)"
  "name (objs (fold (reconcile_part f act sel) ps s) ! i) = name (objs s ! i)"
  "isMesh (objs (fold (reconcile_part f act sel) ps s) ! i) = isMesh (objs s ! i)"
  "geometry (objs (fold (reconcile_part f act sel) ps s) ! i) = geometry (objs s ! i)"
  by (induction ps arbitrary: s; simp)+

lemma fold_part_resolve [simp]:
  "resolve (fold (reconcile_part f act sel) ps s) = resolve s"
  by (rule resolve_cong) simp_all

lemma fold_part_wf:
  "wf_scene s \<Longrightarrow> wf_scene (fold (reconcile_part f act sel) ps s)"
  by (induction ps arbitrary: s) (simp_all add: reconcile_part_wf)

lemma fold_part_other:
  "\<forall>q \<in> set ps. resolve s q \<noteq> Some i \<Longrightarrow>
   objs (fold (reconcile_part f act sel) ps s) ! i = objs s ! i"
  by (induction ps arbitrary: s) (simp_all add: reconcile_part_other)

lemma fold_part_other_mats:
  assumes "wf_scene s" "\<forall>q \<in> set ps. resolve s q \<noteq> Some i" "i < length (objs s)"
    and "j \<in> set (materials_of (material (objs s ! i)))"
  shows "mats (fold (reconcile_part f act sel) ps s) ! j = mats s ! j"
  using assms
proof (induction ps arbitrary: s)
  case Nil
  then show ?case by simp
next
  case (Cons q ps)
  let ?s1 = "reconcile_part f act sel q s"
  have q: "resolve s q \<noteq> Some i" using Cons.prems(2) by simp
  have same: "objs ?s1 ! i = objs s ! i" using q by (rule reconcile_part_other)
  have "mats (fold (reconcile_part f act sel) ps ?s1) ! j = mats ?s1 ! j"
    using Cons.prems same
    by (intro Cons.IH) (simp_all add: reconcile_part_wf)
  then show ?case
    using reconcile_part_other_mats [OF Cons.prems(1) q Cons.prems(3,4)] by simp
qed

lemma fold_part_applied:
  assumes "wf_scene s" "distinct ps" "p \<in> set ps"
    and "resolve s p = Some r" "r < length (objs s)" "isMesh (objs s ! r)"
    and "j \<in> set (materials_of (material (objs (fold (reconcile_part f act sel) ps s) ! r)))"
  shows "j < length (mats (fold (reconcile_part f act sel) ps s)) \<and>
         (\<exists>m0. mats (fold (reconcile_part f act sel) ps s) ! j = f p m0)"
  using assms
proof (induction ps arbitrary: s)
  case Nil
  then show ?case by simp
next
  case (Cons q ps)
  let ?s1 = "reconcile_part f act sel q s"
  have wf1: "wf_scene ?s1" using Cons.prems(1) by (rule reconcile_part_wf)
  show ?case
  proof (cases "p \<in> set ps")
    case True
    show ?thesis
      using Cons.IH [of ?s1] wf1 True Cons.prems by simp
  next
    case False
    then have pq: "q = p" using Cons.prems(3) by simp
    have untouched: "\<forall>q' \<in> set ps. resolve ?s1 q' \<noteq> Some r"
    proof
      fix q' assume q': "q' \<in> set ps"
      show "resolve ?s1 q' \<noteq> Some r"
      proof
        assume "resolve ?s1 q' = Some r"
        then have "q' = p"
          using named_unique [of s q' r p] Cons.prems(1,4,5) by (simp add: wf_scene_def)
        then show False using q' False by simp
      qed
    qed
    have r1: "r < length (objs ?s1)" using Cons.prems(5) by simp
    have obj: "objs (fold (reconcile_part f act sel) ps ?s1) ! r = objs ?s1 ! r"
      using untouched by (rule fold_part_other)
    then have j1: "j \<in> set (materials_of (material (objs ?s1 ! r)))"
      using Cons.prems(7) by simp
    have "mats (fold (reconcile_part f act sel) ps ?s1) ! j = mats ?s1 ! j"
      using wf1 untouched r1 j1 by (rule fold_part_other_mats)
    moreover have "j < length (mats ?s1) \<and> (\<exists>m0. mats ?s1 ! j = f p m0)"
      using reconcile_part_self [OF Cons.prems(1) _ Cons.prems(5,6), of p j f act sel]
        Cons.prems(4) j1 pq by simp
    moreover have "j < length (mats (fold (reconcile_part f act sel) (q # ps) s))"
    proof -
      have "refs_valid (fold (reconcile_part f act sel) (q # ps) s)"
        using fold_part_wf [OF Cons.prems(1), of f act sel "q # ps"] by (simp add: wf_scene_def)
      then show ?thesis
        using Cons.prems(5,7) unfolding refs_valid_def by (metis fold_part_frame(3))
    qed
    ultimately show ?thesis by simp
  qed
qed

subsection \<open>The material callbacks\<close>

lemma Model_material_textured:
  assumes "textures st p = Some url" "url \<noteq> []"
  shows "map_tex (Model_material st a p m) =
           Some \<lparr>src = url, flipY = False, wrapS = RepeatWrapping, wrapT = RepeatWrapping,
                 anisotropy = a,
                 repeat = (2 * scale (mappings st p), 2 * scale (mappings st p)),
                 offset = (offsetX (mappings st p), offsetY (mappings st p))\<rparr>"
    and "color (Model_material st a p m) = Some ''#ffffff''"
  using assms by (simp_all add: Model_material_def TextureLoader_load_def Let_def)

lemma Model_material_tinted:
  assumes "\<not> truthy (textures st p)"
  shows "map_tex (Model_material st a p m) = None"
    and "color (Model_material st a p m) = Some (colors st p)"
  using assms by (simp_all add: Model_material_def Let_def)

lemma Model_material_matte:
  "roughness (Model_material st a p m) = Some 1"
  "metalness (Model_material st a p m) = Some 0"
  "needsUpdate (Model_material st a p m)"
  by (simp_all add: Model_material_def Let_def split: option.splits)

lemma Model_material_secondary_maps:
  "normalMap (Model_material st a p m) = normalMap m"
  "roughnessMap (Model_material st a p m) = roughnessMap m"
  "metalnessMap (Model_material st a p m) = metalnessMap m"
  "bumpMap (Model_material st a p m) = bumpMap m"
  "aoMap (Model_material st a p m) = aoMap m"
  by (simp_all add: Model_material_def Let_def split: option.splits)

lemma index_material_tintable:
  assumes "hasColorProp (index_material cols p m)"
  shows "map_tex (index_material cols p m) = None"
    and "normalMap (index_material cols p m) = None"
    and "roughnessMap (index_material cols p m) = None"
    and "metalnessMap (index_material cols p m) = None"
    and "bumpMap (index_material cols p m) = None"
    and "aoMap (index_material cols p m) = None"
    and "roughness (index_material cols p m) = None \<or> roughness (index_material cols p m) = Some 1"
    and "metalness (index_material cols p m) = None \<or> metalness (index_material cols p m) = Some 0"
    and "color (index_material cols p m) = Some (cols p)"
  using assms
  by (auto simp: index_material_def hasColorProp_def Let_def split: option.splits if_splits)

lemma Model_effect_applied:
  assumes "wf_scene s" "resolve s p = Some r" "r < length (objs s)" "isMesh (objs s ! r)"
    and "j \<in> set (materials_of (material (objs (Model_effect st a s) ! r)))"
  shows "j < length (mats (Model_effect st a s)) \<and>
         (\<exists>m0. mats (Model_effect st a s) ! j = Model_material st a p m0)"
  using fold_part_applied [OF assms(1) PART_NAMES_distinct PART_NAMES_all assms(2-4),
      of j "Model_material st a" "interactive st" "selectedPart st"] assms(5)
  by (simp add: Model_effect_def reconcile_def)

lemma Model_effect_index_applied:
  assumes "wf_scene s" "resolve s p = Some r" "r < length (objs s)" "isMesh (objs s ! r)"
    and "j \<in> set (materials_of (material (objs (Model_effect_index cols sel act s) ! r)))"
  shows "j < length (mats (Model_effect_index cols sel act s)) \<and>
         (\<exists>m0. mats (Model_effect_index cols sel act s) ! j = index_material cols p m0)"
  using fold_part_applied [OF assms(1) PART_NAMES_distinct PART_NAMES_all assms(2-4),
      of j "index_material cols" act sel] assms(5)
  by (simp add: Model_effect_index_def reconcile_def)

subsection \<open>Evaluating the samples\<close>

lemmas eval_defs = Model_effect_def Model_effect_index_def reconcile_def PART_NAMES_def
  reconcile_part_def touch_mesh_def
  resolve_def lookup_def clone_material_def apply_materials_def remove_outline_def
  add_outline_def dispose_def new_outline_def Model_material_def index_material_def
  hasColorProp_def TextureLoader_load_def Let_def

lemma sample_scene_wf: "wf_scene sample_scene"
  by (simp add: wf_scene_def refs_valid_def unshared_def named_def sample_scene_def
      PART_NAMES_def resolve_def less_Suc_eq numeral_2_eq_2)

lemma sample_state_fields:
  "textures sample_state = (\<lambda>p. if p = midsole then Some ''blob:1'' else None)"
  "colors sample_state = (\<lambda>p. if p = midsole then ''#ff0000'' else ''#ffffff'')"
  "mappings sample_state midsole = sample_mapping"
  "selectedPart sample_state = None" "interactive sample_state = True"
  by (auto simp: sample_state_def Page_init_def includes_part_def PART_NAMES_def
      handler_color_def handler_mapping_def handler_image_def initialTextures_def
      initialColors_def fun_eq_iff)

lemma sample_pass_objs:
  "objs (Model_effect sample_state 16 sample_scene) =
   [\<lparr>name = ''midsole'', isMesh = True, geometry = 7, material = Single 3,
     cloned = True, outline = None, children = []\<rparr>,
    \<lparr>name = ''logo'', isMesh = True, geometry = 8, material = Array [1, 2],
     cloned = True, outline = None, children = []\<rparr>]"
  by (simp add: eval_defs sample_scene_def sample_state_fields)

lemma handler_color_message:
  "c \<noteq> [] \<Longrightarrow>
   handler st (MessageData (PartName_string p) (Some c) None None) = handler_color p c st"
  by simp

lemma handler_image_message:
  "i \<noteq> [] \<Longrightarrow>
   handler st (MessageData (PartName_string p) None None (Some i)) = handler_image p i st"
  by simp

lemma sample_pass_mat3:
  "roughness (mats (Model_effect sample_state 16 sample_scene) ! 3) = Some 1"
  "metalness (mats (Model_effect sample_state 16 sample_scene) ! 3) = Some 0"
  "normalMap (mats (Model_effect sample_state 16 sample_scene) ! 3) = Some sample_texture"
  by (simp_all add: eval_defs sample_scene_def sample_state_fields sample_material_def)

lemma sample_index_pass:
  "materials_of (material (objs (Model_effect_index initialColors None True sample_scene) ! 0)) = [3]"
  "mats (Model_effect_index initialColors None True sample_scene) ! 3 =
     \<lparr>color = Some ''#ffffff'', map_tex = None, normalMap = None, roughnessMap = None,
      metalnessMap = None, bumpMap = None, aoMap = None,
      roughness = Some 1, metalness = Some 0, needsUpdate = True\<rparr>"
  by (simp_all add: eval_defs sample_scene_def sample_material_def initialColors_def)

lemma sample_resolve: "resolve sample_scene midsole = Some 0"
  by (simp add: resolve_def sample_scene_def)

lemma sample_index_pass_normalMap:
  "normalMap (mats (Model_effect_index initialColors None True sample_scene) ! 3) = None"
  by (simp only: sample_index_pass(2)) simp

lemma sample_init_pass:
  "materials_of (material (objs (Model_effect Page_init 16 sample_scene) ! 0)) = [3]"
  "map_tex (mats (Model_effect Page_init 16 sample_scene) ! 3) = None"
  "normalMap (mats (Model_effect Page_init 16 sample_scene) ! 3) = Some sample_texture"
  by (simp_all add: eval_defs sample_scene_def sample_material_def Page_init_def
      initialTextures_def initialColors_def)

lemma sample_pass_slot:
  "materials_of (material (objs (Model_effect sample_state 16 sample_scene) ! 0)) = [3]"
  by (simp add: sample_pass_objs)

subsection \<open>Cloning happens once\<close>

lemma clone_material_mats_mono:
  "refs_valid s \<Longrightarrow> length (mats s) \<le> length (mats (clone_material r s))"
proof -
  assume rv: "refs_valid s"
  consider "length (objs s) \<le> r" | "r < length (objs s)" "cloned (objs s ! r)"
    | "r < length (objs s)" "\<not> cloned (objs s ! r)" by linarith
  then show ?thesis
  proof cases
    case 1 then show ?thesis by (simp add: clone_material_beyond)
  next
    case 2 then show ?thesis by (simp add: clone_material_already)
  next
    case 3 then show ?thesis by (simp add: clone_material_fresh(1) [OF rv 3])
  qed
qed

lemma reconcile_part_mats_mono:
  assumes "wf_scene s"
  shows "length (mats s) \<le> length (mats (reconcile_part f act sel p s))"
proof (cases rule: reconcile_part_cases [of f act sel p s])
  case skip
  then show ?thesis by simp
next
  case (touch r)
  have "refs_valid s" using assms by (simp add: wf_scene_def)
  then show ?thesis
    using touch(4) clone_material_mats_mono [of s r] by (simp add: touch_mesh_material)
qed

lemma reconcile_part_first_touch:
  assumes "wf_scene s" "resolve s p = Some r" "r < length (objs s)" "isMesh (objs s ! r)"
    and "\<not> cloned (objs s ! r)"
  shows "cloned (objs (reconcile_part f act sel p s) ! r)"
    and "materials_of (material (objs (reconcile_part f act sel p s) ! r)) =
           [length (mats s) ..< length (mats s) +
              length (materials_of (material (objs s ! r)))]"
    and "length (mats (reconcile_part f act sel p s)) =
           length (mats s) + length (materials_of (material (objs s ! r)))"
proof -
  have rv: "refs_valid s" using assms(1) by (simp add: wf_scene_def)
  have eq: "reconcile_part f act sel p s = touch_mesh (f p) (act \<and> sel = Some p) r s"
    by (cases rule: reconcile_part_cases [of f act sel p s]) (use assms(2-4) in auto)
  show "cloned (objs (reconcile_part f act sel p s) ! r)"
    unfolding eq using assms(3) by (rule touch_mesh_cloned)
  show "materials_of (material (objs (reconcile_part f act sel p s) ! r)) =
           [length (mats s) ..< length (mats s) +
              length (materials_of (material (objs s ! r)))]"
    unfolding eq using rv assms(3,5) by (rule touch_mesh_unmarked(1))
  show "length (mats (reconcile_part f act sel p s)) =
           length (mats s) + length (materials_of (material (objs s ! r)))"
    unfolding eq using rv assms(3,5) by (rule touch_mesh_unmarked(2))
qed

lemma reconcile_part_marked:
  assumes "i < length (objs s)" "cloned (objs s ! i)"
  shows "material (objs (reconcile_part f act sel p s) ! i) = material (objs s ! i)"
    and "cloned (objs (reconcile_part f act sel p s) ! i)"
proof -
  have "material (objs (reconcile_part f act sel p s) ! i) = material (objs s ! i) \<and>
        cloned (objs (reconcile_part f act sel p s) ! i)"
  proof (cases rule: reconcile_part_cases [of f act sel p s])
    case skip
    then show ?thesis using assms by simp
  next
    case (touch r)
    show ?thesis
    proof (cases "i = r")
      case True
      then show ?thesis
        using touch(4) assms touch_mesh_marked(1) [of r s "f p" "act \<and> sel = Some p" r]
          touch_mesh_cloned [of r s "f p" "act \<and> sel = Some p"] by simp
    next
      case False
      then show ?thesis using touch(4) assms by (simp add: touch_mesh_other)
    qed
  qed
  then show "material (objs (reconcile_part f act sel p s) ! i) = material (objs s ! i)"
    and "cloned (objs (reconcile_part f act sel p s) ! i)" by simp_all
qed

lemma fold_part_marked:
  assumes "i < length (objs s)" "cloned (objs s ! i)"
  shows "material (objs (fold (reconcile_part f act sel) ps s) ! i) = material (objs s ! i) \<and>
         cloned (objs (fold (reconcile_part f act sel) ps s) ! i)"
  using assms
proof (induction ps arbitrary: s)
  case Nil
  then show ?case by simp
next
  case (Cons q ps)
  let ?s1 = "reconcile_part f act sel q s"
  have "i < length (objs ?s1)" "cloned (objs ?s1 ! i)"
    using Cons.prems reconcile_part_marked(2) by simp_all
  from Cons.IH [OF this] show ?case
    using reconcile_part_marked(1) [OF Cons.prems] by simp
qed

lemma fold_part_mats_mono:
  "wf_scene s \<Longrightarrow> length (mats s) \<le> length (mats (fold (reconcile_part f act sel) ps s))"
proof (induction ps arbitrary: s)
  case Nil
  then show ?case by simp
next
  case (Cons q ps)
  have "length (mats s) \<le> length (mats (reconcile_part f act sel q s))"
    using Cons.prems by (rule reconcile_part_mats_mono)
  also have "\<dots> \<le> length (mats (fold (reconcile_part f act sel) ps (reconcile_part f act sel q s)))"
    using Cons.prems by (intro Cons.IH reconcile_part_wf)
  finally show ?case by simp
qed

lemma fold_part_first_touch:
  assumes "wf_scene s" "p \<in> set ps" "resolve s p = Some r" "r < length (objs s)"
    and "isMesh (objs s ! r)" "\<not> cloned (objs s ! r)"
  shows "cloned (objs (fold (reconcile_part f act sel) ps s) ! r) \<and>
         (\<forall>j \<in> set (materials_of (material (objs (fold (reconcile_part f act sel) ps s) ! r))).
            length (mats s) \<le> j) \<and>
         length (materials_of (material (objs (fold (reconcile_part f act sel) ps s) ! r))) =
           length (materials_of (material (objs s ! r)))"
  using assms
proof (induction ps arbitrary: s)
  case Nil
  then show ?case by simp
next
  case (Cons q ps)
  let ?s1 = "reconcile_part f act sel q s"
  have wf1: "wf_scene ?s1" using Cons.prems(1) by (rule reconcile_part_wf)
  show ?case
  proof (cases "resolve s q = Some r")
    case True
    note ft = reconcile_part_first_touch [OF Cons.prems(1) True Cons.prems(4,5,6), of f act sel]
    have "r < length (objs ?s1)" using Cons.prems(4) by simp
    from fold_part_marked [OF this ft(1), of f act sel ps] show ?thesis
      using ft(2) by simp
  next
    case False
    then have same: "objs ?s1 ! r = objs s ! r" by (rule reconcile_part_other)
    have "q \<noteq> p" using False Cons.prems(3) by auto
    then have p: "p \<in> set ps" using Cons.prems(2) by simp
    have mono: "length (mats s) \<le> length (mats ?s1)"
      using Cons.prems(1) by (rule reconcile_part_mats_mono)
    show ?thesis
      using Cons.IH [OF wf1 p] Cons.prems(3-6) same mono by fastforce
  qed
qed

lemma fold_part_marks:
  assumes "p \<in> set ps" "resolve s p = Some r" "r < length (objs s)" "isMesh (objs s ! r)"
  shows "cloned (objs (fold (reconcile_part f act sel) ps s) ! r)"
  using assms
proof (induction ps arbitrary: s)
  case Nil
  then show ?case by simp
next
  case (Cons q ps)
  let ?s1 = "reconcile_part f act sel q s"
  show ?case
  proof (cases "q = p")
    case True
    have "reconcile_part f act sel p s = touch_mesh (f p) (act \<and> sel = Some p) r s"
      by (cases rule: reconcile_part_cases [of f act sel p s]) (use Cons.prems(2-4) in auto)
    then have "cloned (objs ?s1 ! r)"
      using True Cons.prems(3) by (simp add: touch_mesh_cloned)
    moreover have "r < length (objs ?s1)" using Cons.prems(3) by simp
    ultimately show ?thesis using fold_part_marked [of r ?s1 f act sel ps] by simp
  next
    case False
    then have "p \<in> set ps" using Cons.prems(1) by simp
    from Cons.IH [OF this, of ?s1] Cons.prems(2-4) show ?thesis by simp
  qed
qed

lemma reconcile_part_no_clone:
  assumes "\<And>r. resolve s p = Some r \<Longrightarrow> r < length (objs s) \<Longrightarrow> isMesh (objs s ! r) \<Longrightarrow>
             cloned (objs s ! r)"
  shows "length (mats (reconcile_part f act sel p s)) = length (mats s)"
    and "material (objs (reconcile_part f act sel p s) ! i) = material (objs s ! i)"
    and "cloned (objs (reconcile_part f act sel p s) ! i) = cloned (objs s ! i)"
proof -
  have "length (mats (reconcile_part f act sel p s)) = length (mats s) \<and>
        material (objs (reconcile_part f act sel p s) ! i) = material (objs s ! i) \<and>
        cloned (objs (reconcile_part f act sel p s) ! i) = cloned (objs s ! i)"
  proof (cases rule: reconcile_part_cases [of f act sel p s])
    case skip
    then show ?thesis by simp
  next
    case (touch r)
    have c: "cloned (objs s ! r)" using assms touch(1-3) by blast
    show ?thesis
      using touch(4) touch(2) c
      by (simp add: touch_mesh_material clone_material_already)
  qed
  then show "length (mats (reconcile_part f act sel p s)) = length (mats s)"
    and "material (objs (reconcile_part f act sel p s) ! i) = material (objs s ! i)"
    and "cloned (objs (reconcile_part f act sel p s) ! i) = cloned (objs s ! i)"
    by simp_all
qed

lemma fold_part_no_clone:
  assumes "\<And>p r. p \<in> set ps \<Longrightarrow> resolve s p = Some r \<Longrightarrow> r < length (objs s) \<Longrightarrow>
             isMesh (objs s ! r) \<Longrightarrow> cloned (objs s ! r)"
  shows "length (mats (fold (reconcile_part f act sel) ps s)) = length (mats s) \<and>
         (\<forall>i. material (objs (fold (reconcile_part f act sel) ps s) ! i) = material (objs s ! i))"
  using assms
proof (induction ps arbitrary: s)
  case Nil
  then show ?case by simp
next
  case (Cons q ps)
  let ?s1 = "reconcile_part f act sel q s"
  have q: "\<And>r. resolve s q = Some r \<Longrightarrow> r < length (objs s) \<Longrightarrow> isMesh (objs s ! r) \<Longrightarrow>
             cloned (objs s ! r)"
    using Cons.prems [of q] by simp
  note nc = reconcile_part_no_clone [of s q, OF q]
  have "length (mats (fold (reconcile_part f act sel) ps ?s1)) = length (mats ?s1) \<and>
        (\<forall>i. material (objs (fold (reconcile_part f act sel) ps ?s1) ! i) =
             material (objs ?s1 ! i))"
  proof (rule Cons.IH)
    fix p r
    assume "p \<in> set ps" "resolve ?s1 p = Some r" "r < length (objs ?s1)"
      "isMesh (objs ?s1 ! r)"
    then have "cloned (objs s ! r)" using Cons.prems [of p r] by simp
    then show "cloned (objs ?s1 ! r)" by (simp add: nc(3))
  qed
  then show ?case by (simp add: nc(1,2))
qed

lemma Model_effect_frame [simp]:
  "nodes (Model_effect st a s) = nodes s"
  "getObjectByName (Model_effect st a s) = getObjectByName s"
  "length (objs (Model_effect st a s)) = length (objs s)"
  "name (objs (Model_effect st a s) ! i) = name (objs s ! i)"
  "isMesh (objs (Model_effect st a s) ! i) = isMesh (objs s ! i)"
  "geometry (objs (Model_effect st a s) ! i) = geometry (objs s ! i)"
  "resolve (Model_effect st a s) = resolve s"
  by (simp_all add: Model_effect_def reconcile_def)

lemma Model_effect_wf: "wf_scene s \<Longrightarrow> wf_scene (Model_effect st a s)"
  by (simp add: Model_effect_def reconcile_def fold_part_wf)

lemma Model_effect_marked:
  assumes "i < length (objs s)" "cloned (objs s ! i)"
  shows "material (objs (Model_effect st a s) ! i) = material (objs s ! i)"
    and "cloned (objs (Model_effect st a s) ! i)"
  using fold_part_marked [OF assms] by (simp_all add: Model_effect_def reconcile_def)

lemma Model_effects_marked:
  assumes "i < length (objs s)" "cloned (objs s ! i)"
  shows "length (objs (Model_effects renders s)) = length (objs s) \<and>
         material (objs (Model_effects renders s) ! i) = material (objs s ! i) \<and>
         cloned (objs (Model_effects renders s) ! i)"
  using assms
proof (induction renders arbitrary: s)
  case Nil
  then show ?case by (simp add: Model_effects_def)
next
  case (Cons x renders)
  obtain st a where x: "x = (st, a)" by (cases x)
  have "i < length (objs (Model_effect st a s))" "cloned (objs (Model_effect st a s) ! i)"
    using Cons.prems Model_effect_marked(2) by simp_all
  from Cons.IH [OF this] show ?case
    using Model_effect_marked(1) [OF Cons.prems] by (simp add: Model_effects_def x)
qed

lemma Model_effect_twice:
  "length (mats (Model_effect st' a' (Model_effect st a s))) = length (mats (Model_effect st a s))"
  "material (objs (Model_effect st' a' (Model_effect st a s)) ! i) =
     material (objs (Model_effect st a s) ! i)"
proof -
  let ?s1 = "Model_effect st a s"
  have marked: "\<And>p r. p \<in> set PART_NAMES \<Longrightarrow> resolve ?s1 p = Some r \<Longrightarrow>
      r < length (objs ?s1) \<Longrightarrow> isMesh (objs ?s1 ! r) \<Longrightarrow> cloned (objs ?s1 ! r)"
  proof -
    fix p r
    assume "p \<in> set PART_NAMES" "resolve ?s1 p = Some r" "r < length (objs ?s1)"
      "isMesh (objs ?s1 ! r)"
    then show "cloned (objs ?s1 ! r)"
      using fold_part_marks [of p PART_NAMES s r "Model_material st a" "interactive st"
          "selectedPart st"]
      by (simp add: Model_effect_def [symmetric] reconcile_def [symmetric])
  qed
  from fold_part_no_clone [of PART_NAMES ?s1, OF marked]
  show "length (mats (Model_effect st' a' ?s1)) = length (mats ?s1)"
    and "material (objs (Model_effect st' a' ?s1) ! i) = material (objs ?s1 ! i)"
    by (simp_all add: Model_effect_def [of st' a'] reconcile_def)
qed


lemma sample_pass_mats_length:
  "length (mats (Model_effect sample_state 16 sample_scene)) = 4"
  by (simp add: eval_defs sample_scene_def sample_state_fields)

subsection \<open>The overlay invariant\<close>

lemma overlay_inv_transfer:
  assumes "length (objs s') = length (objs s)" "lines s' = lines s"
    and "\<And>i. outline (objs s' ! i) = outline (objs s ! i)"
    and "\<And>i. children (objs s' ! i) = children (objs s ! i)"
  shows "overlay_inv s' = overlay_inv s"
  by (simp add: overlay_inv_def attached_def released_def outline_list_def assms)

lemma clone_material_overlay [simp]: "overlay_inv (clone_material r s) = overlay_inv s"
  by (rule overlay_inv_transfer) simp_all

lemma apply_materials_overlay [simp]: "overlay_inv (apply_materials f r s) = overlay_inv s"
  by (rule overlay_inv_transfer) simp_all

lemma remove_outline_outline:
  "outline (objs (remove_outline r s) ! i) =
     (if i = r \<and> r < length (objs s) then None else outline (objs s ! i))"
  by (auto simp: remove_outline_def lookup_def split: option.splits)

lemma remove_outline_children:
  "children (objs (remove_outline r s) ! i) =
     (if i = r \<and> r < length (objs s)
      then (case outline (objs s ! r) of
              None \<Rightarrow> children (objs s ! r)
            | Some l \<Rightarrow> remove1 l (children (objs s ! r)))
      else children (objs s ! i))"
  by (auto simp: remove_outline_def lookup_def split: option.splits)

lemma dispose_length [simp]: "length (dispose l ls) = length ls"
  by (simp add: dispose_def lookup_def)

lemma dispose_flags:
  "k < length ls \<Longrightarrow>
   geometry_disposed (dispose l ls ! k) = (k = l \<or> geometry_disposed (ls ! k)) \<and>
   material_disposed (dispose l ls ! k) = (k = l \<or> material_disposed (ls ! k))"
  by (auto simp: dispose_def lookup_def nth_list_update)

lemma remove_outline_lines:
  "lines (remove_outline r s) =
     (if r < length (objs s)
      then (case outline (objs s ! r) of None \<Rightarrow> lines s | Some l \<Rightarrow> dispose l (lines s))
      else lines s)"
  by (auto simp: remove_outline_def lookup_def split: option.splits)

lemma remove_outline_released:
  "released s l \<Longrightarrow> released (remove_outline r s) l"
  by (auto simp: released_def remove_outline_lines dispose_flags split: option.splits)

lemma remove_outline_releases:
  "r < length (objs s) \<Longrightarrow> outline (objs s ! r) = Some l \<Longrightarrow> l < length (lines s) \<Longrightarrow>
   released (remove_outline r s) l"
  by (simp add: released_def remove_outline_lines dispose_flags)

lemma add_outline_outline:
  "outline (objs (add_outline r s) ! i) =
     (if i = r \<and> r < length (objs s) then Some (length (lines s)) else outline (objs s ! i))"
  by (auto simp: add_outline_def lookup_def)

lemma add_outline_children:
  "children (objs (add_outline r s) ! i) =
     (if i = r \<and> r < length (objs s) then children (objs s ! r) @ [length (lines s)]
      else children (objs s ! i))"
  by (auto simp: add_outline_def lookup_def)

lemma add_outline_lines:
  "lines (add_outline r s) =
     (if r < length (objs s) then lines s @ [new_outline (objs s ! r)] else lines s)"
  by (auto simp: add_outline_def lookup_def)

lemma add_outline_released: "released s l \<Longrightarrow> released (add_outline r s) l"
  by (auto simp: released_def add_outline_lines nth_append)

lemma remove_outline_overlay:
  assumes "overlay_inv s"
  shows "overlay_inv (remove_outline r s)"
proof -
  have I1: "\<And>i. i < length (objs s) \<Longrightarrow> children (objs s ! i) = outline_list (objs s ! i)"
    and I2: "\<And>i l. i < length (objs s) \<Longrightarrow> outline (objs s ! i) = Some l \<Longrightarrow>
          l < length (lines s)"
    and I3: "\<And>l. l < length (lines s) \<Longrightarrow> attached s l \<or> released s l"
    using assms by (auto simp: overlay_inv_def)
  let ?s' = "remove_outline r s"
  have J1: "\<forall>i < length (objs ?s'). children (objs ?s' ! i) = outline_list (objs ?s' ! i)"
    using I1 by (auto simp: remove_outline_children remove_outline_outline outline_list_def
        split: option.splits)
  have J2: "\<forall>i < length (objs ?s'). \<forall>l. outline (objs ?s' ! i) = Some l \<longrightarrow>
      l < length (lines ?s')"
    using I2 by (auto simp: remove_outline_outline split: if_splits)
  have J3: "\<forall>l < length (lines ?s'). attached ?s' l \<or> released ?s' l"
  proof (intro allI impI)
    fix l assume "l < length (lines ?s')"
    then have l: "l < length (lines s)" by simp
    from I3 [OF l] show "attached ?s' l \<or> released ?s' l"
    proof
      assume "released s l"
      then show ?thesis by (simp add: remove_outline_released)
    next
      assume "attached s l"
      then obtain i where i: "i < length (objs s)" "outline (objs s ! i) = Some l"
        by (auto simp: attached_def)
      show ?thesis
      proof (cases "i = r")
        case True
        then have "released ?s' l" using i l by (simp add: remove_outline_releases)
        then show ?thesis ..
      next
        case False
        then have "attached ?s' l"
          using i by (auto simp: attached_def remove_outline_outline)
        then show ?thesis ..
      qed
    qed
  qed
  show ?thesis using J1 J2 J3 by (simp add: overlay_inv_def)
qed

lemma add_outline_overlay:
  assumes "overlay_inv s" "r < length (objs s) \<longrightarrow> outline (objs s ! r) = None"
  shows "overlay_inv (add_outline r s)"
proof (cases "r < length (objs s)")
  case False
  then have "add_outline r s = s" by (simp add: add_outline_def lookup_def)
  then show ?thesis using assms(1) by simp
next
  case True
  then have none: "outline (objs s ! r) = None" using assms(2) by simp
  have I1: "\<And>i. i < length (objs s) \<Longrightarrow> children (objs s ! i) = outline_list (objs s ! i)"
    and I2: "\<And>i l. i < length (objs s) \<Longrightarrow> outline (objs s ! i) = Some l \<Longrightarrow>
          l < length (lines s)"
    and I3: "\<And>l. l < length (lines s) \<Longrightarrow> attached s l \<or> released s l"
    using assms(1) by (auto simp: overlay_inv_def)
  let ?s' = "add_outline r s"
  have J1: "\<forall>i < length (objs ?s'). children (objs ?s' ! i) = outline_list (objs ?s' ! i)"
    using I1 none True
    by (auto simp: add_outline_children add_outline_outline outline_list_def)
  have J2: "\<forall>i < length (objs ?s'). \<forall>l. outline (objs ?s' ! i) = Some l \<longrightarrow>
      l < length (lines ?s')"
    using I2 True by (auto simp: add_outline_outline add_outline_lines less_Suc_eq
        split: if_splits)
  have J3: "\<forall>l < length (lines ?s'). attached ?s' l \<or> released ?s' l"
  proof (intro allI impI)
    fix l assume "l < length (lines ?s')"
    then consider "l = length (lines s)" | "l < length (lines s)"
      using True by (auto simp: add_outline_lines less_Suc_eq)
    then show "attached ?s' l \<or> released ?s' l"
    proof cases
      case 1
      then have "attached ?s' l"
        using True by (auto simp: attached_def add_outline_outline)
      then show ?thesis ..
    next
      case 2
      from I3 [OF 2] show ?thesis
      proof
        assume "released s l"
        then show ?thesis by (simp add: add_outline_released)
      next
        assume "attached s l"
        then obtain i where i: "i < length (objs s)" "outline (objs s ! i) = Some l"
          by (auto simp: attached_def)
        then have "i \<noteq> r" using none by auto
        then have "attached ?s' l" using i by (auto simp: attached_def add_outline_outline)
        then show ?thesis ..
      qed
    qed
  qed
  show ?thesis using J1 J2 J3 by (simp add: overlay_inv_def)
qed

lemma touch_mesh_overlay: "overlay_inv s \<Longrightarrow> overlay_inv (touch_mesh f b r s)"
  by (simp add: touch_mesh_def Let_def remove_outline_overlay add_outline_overlay
      remove_outline_outline)

lemma touch_mesh_outline:
  "r < length (objs s) \<Longrightarrow>
   outline (objs (touch_mesh f b r s) ! r) = (if b then Some (length (lines s)) else None)"
  by (simp add: touch_mesh_def Let_def add_outline_outline remove_outline_outline)

lemma touch_mesh_lines_mono: "length (lines s) \<le> length (lines (touch_mesh f b r s))"
  by (simp add: touch_mesh_def Let_def add_outline_lines)

lemma touch_mesh_released: "released s l \<Longrightarrow> released (touch_mesh f b r s) l"
proof -
  assume "released s l"
  then have "released (apply_materials f r (clone_material r s)) l"
    by (simp add: released_def)
  then show ?thesis
    by (simp add: touch_mesh_def Let_def remove_outline_released add_outline_released)
qed

lemma touch_mesh_releases:
  assumes "r < length (objs s)" "outline (objs s ! r) = Some l" "l < length (lines s)"
  shows "released (touch_mesh f b r s) l"
proof -
  let ?s2 = "apply_materials f r (clone_material r s)"
  have "released (remove_outline r ?s2) l"
    using assms by (intro remove_outline_releases) simp_all
  then show ?thesis by (simp add: touch_mesh_def Let_def add_outline_released)
qed

lemma reconcile_part_overlay:
  "overlay_inv s \<Longrightarrow> overlay_inv (reconcile_part f act sel p s)"
  by (cases rule: reconcile_part_cases [of f act sel p s]) (simp_all add: touch_mesh_overlay)

lemma reconcile_part_lines_mono:
  "length (lines s) \<le> length (lines (reconcile_part f act sel p s))"
  by (cases rule: reconcile_part_cases [of f act sel p s]) (simp_all add: touch_mesh_lines_mono)

lemma reconcile_part_released:
  "released s l \<Longrightarrow> released (reconcile_part f act sel p s) l"
  by (cases rule: reconcile_part_cases [of f act sel p s]) (simp_all add: touch_mesh_released)

lemma reconcile_part_outline:
  assumes "i < length (objs s)"
  shows "outline (objs (reconcile_part f act sel p s) ! i) =
     (if resolve s p = Some i \<and> isMesh (objs s ! i)
      then (if act \<and> sel = Some p then Some (length (lines s)) else None)
      else outline (objs s ! i))"
proof (cases rule: reconcile_part_cases [of f act sel p s])
  case skip
  then show ?thesis using assms by auto
next
  case (touch r)
  show ?thesis
  proof (cases "i = r")
    case True
    then show ?thesis using touch by (simp add: touch_mesh_outline)
  next
    case False
    then show ?thesis using touch by (auto simp: touch_mesh_other)
  qed
qed

lemma fold_part_overlay:
  "overlay_inv s \<Longrightarrow> overlay_inv (fold (reconcile_part f act sel) ps s)"
  by (induction ps arbitrary: s) (simp_all add: reconcile_part_overlay)

lemma fold_part_lines_mono:
  "length (lines s) \<le> length (lines (fold (reconcile_part f act sel) ps s))"
proof (induction ps arbitrary: s)
  case Nil
  then show ?case by simp
next
  case (Cons q ps)
  show ?case
    using reconcile_part_lines_mono [of s f act sel q]
      Cons.IH [of "reconcile_part f act sel q s"] by simp
qed

lemma fold_part_released:
  "released s l \<Longrightarrow> released (fold (reconcile_part f act sel) ps s) l"
  by (induction ps arbitrary: s) (simp_all add: reconcile_part_released)


lemma fold_part_outline:
  assumes "r < length (objs s)"
  shows
    "(if \<exists>q \<in> set ps. resolve s q = Some r \<and> isMesh (objs s ! r)
      then outline (objs (fold (reconcile_part f act sel) ps s) ! r) = None \<or>
           (\<exists>n \<ge> length (lines s).
              outline (objs (fold (reconcile_part f act sel) ps s) ! r) = Some n \<and> act \<and>
              (\<exists>q \<in> set ps. sel = Some q \<and> resolve s q = Some r))
      else outline (objs (fold (reconcile_part f act sel) ps s) ! r) = outline (objs s ! r))"
  using assms
proof (induction ps arbitrary: s)
  case Nil
  then show ?case by simp
next
  case (Cons q ps)
  let ?s1 = "reconcile_part f act sel q s"
  let ?fin = "outline (objs (fold (reconcile_part f act sel) ps ?s1) ! r)"
  have r1: "r < length (objs ?s1)" using Cons.prems by simp
  note IH = Cons.IH [OF r1]
  have mono: "length (lines s) \<le> length (lines ?s1)" by (rule reconcile_part_lines_mono)
  have o1: "outline (objs ?s1 ! r) =
     (if resolve s q = Some r \<and> isMesh (objs s ! r)
      then (if act \<and> sel = Some q then Some (length (lines s)) else None)
      else outline (objs s ! r))"
    using Cons.prems by (rule reconcile_part_outline)
  show ?case
  proof (cases "\<exists>q' \<in> set ps. resolve s q' = Some r \<and> isMesh (objs s ! r)")
    case True
    then have "?fin = None \<or>
           (\<exists>n \<ge> length (lines ?s1). ?fin = Some n \<and> act \<and>
              (\<exists>q' \<in> set ps. sel = Some q' \<and> resolve s q' = Some r))"
      using IH by simp
    then have "?fin = None \<or>
           (\<exists>n \<ge> length (lines s). ?fin = Some n \<and> act \<and>
              (\<exists>q' \<in> set (q # ps). sel = Some q' \<and> resolve s q' = Some r))"
      using mono by (metis le_trans list.set_intros(2))
    then show ?thesis using True by auto
  next
    case False
    then have fin: "?fin = outline (objs ?s1 ! r)" using IH by simp
    show ?thesis
    proof (cases "resolve s q = Some r \<and> isMesh (objs s ! r)")
      case True
      then show ?thesis using fin o1 by auto
    next
      case False
      then show ?thesis
        using fin o1 \<open>\<not> (\<exists>q' \<in> set ps. resolve s q' = Some r \<and> isMesh (objs s ! r))\<close>
        by auto
    qed
  qed
qed

lemma fold_part_releases:
  assumes "overlay_inv s" "p \<in> set ps" "resolve s p = Some r" "r < length (objs s)"
    and "isMesh (objs s ! r)" "outline (objs s ! r) = Some l"
  shows "released (fold (reconcile_part f act sel) ps s) l"
  using assms
proof (induction ps arbitrary: s)
  case Nil
  then show ?case by simp
next
  case (Cons q ps)
  let ?s1 = "reconcile_part f act sel q s"
  have l: "l < length (lines s)"
    using Cons.prems(1,4,6) by (auto simp: overlay_inv_def)
  show ?case
  proof (cases "resolve s q = Some r")
    case True
    have "?s1 = touch_mesh (f q) (act \<and> sel = Some q) r s"
      by (cases rule: reconcile_part_cases [of f act sel q s])
         (use True Cons.prems(4,5) in auto)
    then have "released ?s1 l"
      using touch_mesh_releases [OF Cons.prems(4,6) l] by simp
    then show ?thesis by (simp add: fold_part_released)
  next
    case False
    then have same: "objs ?s1 ! r = objs s ! r" by (rule reconcile_part_other)
    have "q \<noteq> p" using False Cons.prems(3) by auto
    then have p: "p \<in> set ps" using Cons.prems(2) by simp
    have "released (fold (reconcile_part f act sel) ps ?s1) l"
      using Cons.prems same p
      by (intro Cons.IH) (simp_all add: reconcile_part_overlay)
    then show ?thesis by simp
  qed
qed

lemma fold_part_selected:
  assumes "wf_scene s" "distinct ps" "p \<in> set ps" "resolve s p = Some r"
    and "r < length (objs s)" "isMesh (objs s ! r)" "act" "sel = Some p"
  shows "\<exists>n \<ge> length (lines s).
           outline (objs (fold (reconcile_part f act sel) ps s) ! r) = Some n"
  using assms(1-6)
proof (induction ps arbitrary: s)
  case Nil
  then show ?case by simp
next
  case (Cons q ps)
  let ?s1 = "reconcile_part f act sel q s"
  have mono: "length (lines s) \<le> length (lines ?s1)" by (rule reconcile_part_lines_mono)
  show ?case
  proof (cases "p \<in> set ps")
    case True
    have "\<exists>n \<ge> length (lines ?s1).
           outline (objs (fold (reconcile_part f act sel) ps ?s1) ! r) = Some n"
      using Cons.prems True by (intro Cons.IH) (simp_all add: reconcile_part_wf)
    then show ?thesis using mono by (auto intro: le_trans)
  next
    case False
    then have pq: "q = p" using Cons.prems(3) by simp
    have untouched: "\<forall>q' \<in> set ps. resolve ?s1 q' \<noteq> Some r"
    proof
      fix q' assume q': "q' \<in> set ps"
      show "resolve ?s1 q' \<noteq> Some r"
      proof
        assume "resolve ?s1 q' = Some r"
        then have "q' = p"
          using named_unique [of s q' r p] Cons.prems(1,4,5) by (simp add: wf_scene_def)
        then show False using q' False by simp
      qed
    qed
    have "objs (fold (reconcile_part f act sel) ps ?s1) ! r = objs ?s1 ! r"
      using untouched by (rule fold_part_other)
    moreover have "outline (objs ?s1 ! r) = Some (length (lines s))"
      using reconcile_part_outline [OF Cons.prems(5), of f act sel q] pq Cons.prems(4,6)
        assms(7,8) by simp
    ultimately show ?thesis by simp
  qed
qed

lemma Model_effect_overlay: "overlay_inv s \<Longrightarrow> overlay_inv (Model_effect st a s)"
  by (simp add: Model_effect_def reconcile_def fold_part_overlay)

lemma Model_effects_overlay: "overlay_inv s \<Longrightarrow> overlay_inv (Model_effects renders s)"
proof (induction renders arbitrary: s)
  case Nil
  then show ?case by (simp add: Model_effects_def)
next
  case (Cons x renders)
  obtain st a where x: "x = (st, a)" by (cases x)
  have "overlay_inv (Model_effect st a s)" using Cons.prems by (rule Model_effect_overlay)
  from Cons.IH [OF this] show ?case by (simp add: Model_effects_def x)
qed

lemma overlay_inv_children:
  "overlay_inv s \<Longrightarrow> i < length (objs s) \<Longrightarrow> length (children (objs s ! i)) \<le> 1"
  by (auto simp: overlay_inv_def outline_list_def split: option.splits)


lemma sample_selected_fields:
  "textures sample_selected = (\<lambda>p. if p = midsole then Some ''blob:1'' else None)"
  "colors sample_selected = (\<lambda>p. if p = midsole then ''#ff0000'' else ''#ffffff'')"
  "mappings sample_selected midsole = sample_mapping"
  "selectedPart sample_selected = Some midsole" "interactive sample_selected = True"
  by (simp_all add: sample_selected_def onPointerDown_def sample_state_fields
      includes_part_def PART_NAMES_def)

lemma sample_deselected_fields:
  "selectedPart sample_deselected = None" "interactive sample_deselected = False"
  by (simp_all add: sample_deselected_def toggleInteractive_def sample_selected_fields Let_def)

lemma sample_scene_overlay: "overlay_inv sample_scene"
  by (simp add: overlay_inv_def sample_scene_def outline_list_def less_Suc_eq numeral_2_eq_2)

lemma sample_selected_pass:
  "outline (objs (Model_effect sample_selected 16 sample_scene) ! 0) = Some 0"
  "children (objs (Model_effect sample_selected 16 sample_scene) ! 0) = [0]"
  "length (lines (Model_effect sample_selected 16 sample_scene)) = 1"
  by (simp_all add: eval_defs sample_scene_def sample_selected_fields)

subsection \<open>Setting a canvas dimension\<close>

lemma set_dimension_whole:
  assumes "v \<in> \<int>" "0 \<le> v" "v \<le> 2147483647"
  shows "real_of_int (set_dimension dflt v) = v"
proof -
  obtain k :: int where k: "v = of_int k" using assms(1) by (auto elim: Ints_cases)
  have "0 \<le> k" "k \<le> 2147483647" using assms(2,3) k by simp_all
  then have "k mod 2 ^ 32 = k" by simp
  then show ?thesis
    using \<open>0 \<le> k\<close> \<open>k \<le> 2147483647\<close>
    by (simp add: set_dimension_def ConvertToUnsignedLong_def truncate_toward_zero_def k Let_def)
qed

lemma set_dimension_samples:
  "set_dimension 300 (- 5) = 300" "set_dimension 300 (1007 / 10) = 100"
  "set_dimension 300 2147483648 = 300"
  by (simp_all add: set_dimension_def ConvertToUnsignedLong_def truncate_toward_zero_def Let_def)

subsection \<open>Texture loads\<close>

lemma register_map_scene [simp]: "scene (register_map st p j ss) = scene ss"
  by (simp add: register_map_def split: option.splits)

lemma register_map_prefix:
  "length (texobjs ss) \<le> length (texobjs (register_map st p j ss))"
  "k < length (texobjs ss) \<Longrightarrow> texobjs (register_map st p j ss) ! k = texobjs ss ! k"
  by (simp_all add: register_map_def nth_append split: option.splits)

lemma register_map_other:
  "j' \<noteq> j \<Longrightarrow> installed (register_map st p j ss) j' = installed ss j'"
  by (simp add: register_map_def split: option.splits)

lemma register_map_self:
  assumes "textures st p = Some u" "u \<noteq> []" "j < length (mats (scene ss))"
  shows "fresh_for u (length (texobjs ss)) (register_map st p j ss) j"
  using assms by (simp add: register_map_def fresh_for_def lookup_def)

lemma fold_register_scene [simp]: "scene (fold (register_map st p) js ss) = scene ss"
  by (induction js arbitrary: ss) simp_all

lemma fold_register_prefix:
  "length (texobjs ss) \<le> length (texobjs (fold (register_map st p) js ss)) \<and>
   (k < length (texobjs ss) \<longrightarrow> texobjs (fold (register_map st p) js ss) ! k = texobjs ss ! k)"
proof (induction js arbitrary: ss)
  case Nil
  then show ?case by simp
next
  case (Cons x js)
  show ?case
    using Cons.IH [of "register_map st p x ss"] register_map_prefix(1) [of ss st p x]
      register_map_prefix(2) [where k = k and ss = ss and st = st and p = p and j = x]
    by auto
qed

lemma fold_register_other:
  "j \<notin> set js \<Longrightarrow> installed (fold (register_map st p) js ss) j = installed ss j"
  by (induction js arbitrary: ss) (simp_all add: register_map_other)

lemma fresh_for_mono: "fresh_for u n ss j \<Longrightarrow> m \<le> n \<Longrightarrow> fresh_for u m ss j"
  by (auto simp: fresh_for_def)

lemma fold_register_self:
  assumes "textures st p = Some u" "u \<noteq> []" "j \<in> set js" "j < length (mats (scene ss))"
  shows "fresh_for u (length (texobjs ss)) (fold (register_map st p) js ss) j"
  using assms(3,4)
proof (induction js arbitrary: ss)
  case Nil
  then show ?case by simp
next
  case (Cons x js)
  let ?ss1 = "register_map st p x ss"
  show ?case
  proof (cases "j \<in> set js")
    case True
    have "fresh_for u (length (texobjs ?ss1)) (fold (register_map st p) js ?ss1) j"
      using True Cons.prems(2) by (intro Cons.IH) simp_all
    then show ?thesis
      using register_map_prefix(1) [of ss st p x] by (simp add: fresh_for_mono)
  next
    case False
    then have x: "x = j" using Cons.prems(1) by simp
    have f1: "fresh_for u (length (texobjs ss)) ?ss1 j"
      unfolding x using assms(1,2) Cons.prems(2) by (rule register_map_self)
    then obtain k where k: "installed ?ss1 j = Some k" "length (texobjs ss) \<le> k"
      "k < length (texobjs ?ss1)" "texobjs ?ss1 ! k = \<lparr>load_url = u, loaded_image = None\<rparr>"
      by (auto simp: fresh_for_def)
    have "installed (fold (register_map st p) js ?ss1) j = Some k"
      using False k(1) by (simp add: fold_register_other)
    moreover have "k < length (texobjs (fold (register_map st p) js ?ss1))"
      "texobjs (fold (register_map st p) js ?ss1) ! k = \<lparr>load_url = u, loaded_image = None\<rparr>"
      using fold_register_prefix [of ?ss1 st p js k] k(3,4) by auto
    ultimately show ?thesis using k(2) by (auto simp: fresh_for_def)
  qed
qed

lemma session_part_scene [simp]:
  "scene (session_part st a p ss) =
     reconcile_part (Model_material st a) (interactive st) (selectedPart st) p (scene ss)"
  by (simp add: session_part_def Let_def split: option.splits)

lemma session_part_prefix:
  "length (texobjs ss) \<le> length (texobjs (session_part st a p ss)) \<and>
   (k < length (texobjs ss) \<longrightarrow> texobjs (session_part st a p ss) ! k = texobjs ss ! k)"
proof -
  let ?ss' = "ss\<lparr>scene :=
    reconcile_part (Model_material st a) (interactive st) (selectedPart st) p (scene ss)\<rparr>"
  have "\<And>js. length (texobjs ss) \<le> length (texobjs (fold (register_map st p) js ?ss')) \<and>
     (k < length (texobjs ss) \<longrightarrow>
        texobjs (fold (register_map st p) js ?ss') ! k = texobjs ss ! k)"
    using fold_register_prefix [of ?ss' st p _ k] by simp
  then show ?thesis
    by (simp add: session_part_def Let_def split: option.splits)
qed

lemma session_part_other:
  assumes "\<And>r. resolve (scene ss) p = Some r \<Longrightarrow> r < length (objs (scene ss)) \<Longrightarrow>
      isMesh (objs (scene ss) ! r) \<Longrightarrow>
      j \<notin> set (materials_of (material (objs (scene (session_part st a p ss)) ! r)))"
  shows "installed (session_part st a p ss) j = installed ss j"
  using assms
  by (auto simp: session_part_def Let_def lookup_def fold_register_other split: option.splits)

lemma session_part_self:
  assumes "wf_scene (scene ss)" "resolve (scene ss) p = Some r" "r < length (objs (scene ss))"
    and "isMesh (objs (scene ss) ! r)" "textures st p = Some u" "u \<noteq> []"
    and "j \<in> set (materials_of (material (objs (scene (session_part st a p ss)) ! r)))"
  shows "fresh_for u (length (texobjs ss)) (session_part st a p ss) j"
proof -
  let ?s' = "reconcile_part (Model_material st a) (interactive st) (selectedPart st) p (scene ss)"
  have j: "j \<in> set (materials_of (material (objs ?s' ! r)))" using assms(7) by simp
  have "j < length (mats ?s')"
    using reconcile_part_self [OF assms(1-4) j] by simp
  then have "fresh_for u (length (texobjs (ss\<lparr>scene := ?s'\<rparr>)))
      (fold (register_map st p) (materials_of (material (objs ?s' ! r))) (ss\<lparr>scene := ?s'\<rparr>)) j"
    using j by (intro fold_register_self [OF assms(5,6)]) simp_all
  then show ?thesis
    using assms(2-4) by (simp add: session_part_def Let_def lookup_def)
qed

lemma reconcile_part_marks:
  assumes "resolve s p = Some r" "r < length (objs s)" "isMesh (objs s ! r)"
  shows "cloned (objs (reconcile_part f act sel p s) ! r)"
proof -
  have "reconcile_part f act sel p s = touch_mesh (f p) (act \<and> sel = Some p) r s"
    by (cases rule: reconcile_part_cases [of f act sel p s]) (use assms in auto)
  then show ?thesis using assms(2) by (simp add: touch_mesh_cloned)
qed

lemma session_part_other_mesh:
  assumes "wf_scene (scene ss)" "resolve (scene ss) q \<noteq> Some r" "r < length (objs (scene ss))"
    and "j \<in> set (materials_of (material (objs (scene ss) ! r)))"
  shows "installed (session_part st a q ss) j = installed ss j"
proof (rule session_part_other)
  fix r'
  let ?s' = "scene (session_part st a q ss)"
  assume r': "resolve (scene ss) q = Some r'" "r' < length (objs (scene ss))"
    "isMesh (objs (scene ss) ! r')"
  have ne: "r' \<noteq> r" using r'(1) assms(2) by auto
  have "wf_scene ?s'" using assms(1) by (simp add: reconcile_part_wf)
  then have us: "unshared ?s'" by (simp add: wf_scene_def)
  have c: "cloned (objs ?s' ! r')" using r' by (simp add: reconcile_part_marks)
  have same: "objs ?s' ! r = objs (scene ss) ! r"
    using assms(2) by (simp add: reconcile_part_other)
  have "set (materials_of (material (objs ?s' ! r'))) \<inter>
        set (materials_of (material (objs ?s' ! r))) = {}"
    using us c ne r'(2) assms(3) unfolding unshared_def by simp
  then show "j \<notin> set (materials_of (material (objs ?s' ! r')))"
    using assms(4) same by auto
qed

lemma fold_session_scene [simp]:
  "scene (fold (session_part st a) ps ss) =
     fold (reconcile_part (Model_material st a) (interactive st) (selectedPart st)) ps (scene ss)"
  by (induction ps arbitrary: ss) simp_all

lemma session_effect_scene [simp]:
  "scene (session_effect st a ss) = Model_effect st a (scene ss)"
  by (simp add: session_effect_def Model_effect_def reconcile_def)

lemma fold_session_prefix:
  "length (texobjs ss) \<le> length (texobjs (fold (session_part st a) ps ss)) \<and>
   (k < length (texobjs ss) \<longrightarrow> texobjs (fold (session_part st a) ps ss) ! k = texobjs ss ! k)"
proof (induction ps arbitrary: ss)
  case Nil
  then show ?case by simp
next
  case (Cons q ps)
  show ?case
    using Cons.IH [of "session_part st a q ss"] session_part_prefix [of ss st a q k]
    by auto
qed

lemma fold_session_other_mesh:
  assumes "wf_scene (scene ss)" "\<forall>q \<in> set ps. resolve (scene ss) q \<noteq> Some r"
    and "r < length (objs (scene ss))"
    and "j \<in> set (materials_of (material (objs (scene ss) ! r)))"
  shows "installed (fold (session_part st a) ps ss) j = installed ss j"
  using assms
proof (induction ps arbitrary: ss)
  case Nil
  then show ?case by simp
next
  case (Cons q ps)
  let ?ss1 = "session_part st a q ss"
  have q: "resolve (scene ss) q \<noteq> Some r" using Cons.prems(2) by simp
  have same: "objs (scene ?ss1) ! r = objs (scene ss) ! r"
    using q by (simp add: reconcile_part_other)
  have "installed (fold (session_part st a) ps ?ss1) j = installed ?ss1 j"
    using Cons.prems same by (intro Cons.IH) (simp_all add: reconcile_part_wf)
  then show ?case
    using session_part_other_mesh [OF Cons.prems(1) q Cons.prems(3,4)] by simp
qed

lemma fold_session_applied:
  assumes "wf_scene (scene ss)" "distinct ps" "p \<in> set ps"
    and "resolve (scene ss) p = Some r" "r < length (objs (scene ss))"
    and "isMesh (objs (scene ss) ! r)" "textures st p = Some u" "u \<noteq> []"
    and "j \<in> set (materials_of (material (objs (scene (fold (session_part st a) ps ss)) ! r)))"
  shows "fresh_for u (length (texobjs ss)) (fold (session_part st a) ps ss) j"
  using assms(1-6,9)
proof (induction ps arbitrary: ss)
  case Nil
  then show ?case by simp
next
  case (Cons q ps)
  let ?ss1 = "session_part st a q ss"
  have wf1: "wf_scene (scene ?ss1)" using Cons.prems(1) by (simp add: reconcile_part_wf)
  show ?case
  proof (cases "p \<in> set ps")
    case True
    have "fresh_for u (length (texobjs ?ss1)) (fold (session_part st a) ps ?ss1) j"
      using Cons.prems True wf1 by (intro Cons.IH) simp_all
    then show ?thesis
      using session_part_prefix [of ss st a q] by (simp add: fresh_for_mono)
  next
    case False
    then have pq: "q = p" using Cons.prems(3) by simp
    have untouched: "\<forall>q' \<in> set ps. resolve (scene ?ss1) q' \<noteq> Some r"
    proof
      fix q' assume q': "q' \<in> set ps"
      show "resolve (scene ?ss1) q' \<noteq> Some r"
      proof
        assume "resolve (scene ?ss1) q' = Some r"
        then have "q' = p"
          using named_unique [of "scene ss" q' r p] Cons.prems(1,4,5)
          by (simp add: wf_scene_def)
        then show False using q' False by simp
      qed
    qed
    have r1: "r < length (objs (scene ?ss1))" using Cons.prems(5) by simp
    have obj: "objs (scene (fold (session_part st a) ps ?ss1)) ! r = objs (scene ?ss1) ! r"
      using untouched fold_part_other [of ps "scene ?ss1" r] by simp
    then have j1: "j \<in> set (materials_of (material (objs (scene ?ss1) ! r)))"
      using Cons.prems(7) by simp
    have "fresh_for u (length (texobjs ss)) ?ss1 j"
      unfolding pq using Cons.prems(1,4,5,6) assms(7,8) j1 [unfolded pq]
      by (rule session_part_self)
    then obtain k where k: "installed ?ss1 j = Some k" "length (texobjs ss) \<le> k"
      "k < length (texobjs ?ss1)" "texobjs ?ss1 ! k = \<lparr>load_url = u, loaded_image = None\<rparr>"
      by (auto simp: fresh_for_def)
    have "installed (fold (session_part st a) ps ?ss1) j = Some k"
      using fold_session_other_mesh [OF wf1 untouched r1 j1] k(1) by simp
    moreover have "k < length (texobjs (fold (session_part st a) ps ?ss1))"
      "texobjs (fold (session_part st a) ps ?ss1) ! k = \<lparr>load_url = u, loaded_image = None\<rparr>"
      using fold_session_prefix [of ?ss1 st a ps k] k(3,4) by auto
    ultimately show ?thesis using k(2) by (auto simp: fresh_for_def)
  qed
qed

subsection \<open>Completions\<close>

lemma load_complete_frame [simp]:
  "scene (load_complete k img ss) = scene ss"
  "installed (load_complete k img ss) = installed ss"
  "length (texobjs (load_complete k img ss)) = length (texobjs ss)"
  "load_url (texobjs (load_complete k img ss) ! i) = load_url (texobjs ss ! i)"
  by (auto simp: load_complete_def lookup_def nth_list_update)

lemma load_complete_image:
  "loaded_image (texobjs (load_complete k img ss) ! i) =
     (if i = k \<and> k < length (texobjs ss) then Some img else loaded_image (texobjs ss ! i))"
  by (auto simp: load_complete_def lookup_def)

lemma load_completions_frame [simp]:
  "scene (load_completions cs ss) = scene ss"
  "installed (load_completions cs ss) = installed ss"
  "length (texobjs (load_completions cs ss)) = length (texobjs ss)"
  "load_url (texobjs (load_completions cs ss) ! i) = load_url (texobjs ss ! i)"
  by (induction cs arbitrary: ss; simp add: load_completions_def split: prod.splits)+

lemma load_completions_image:
  "\<forall>c \<in> set cs. fst c \<noteq> i \<Longrightarrow>
   loaded_image (texobjs (load_completions cs ss) ! i) = loaded_image (texobjs ss ! i)"
proof (induction cs arbitrary: ss)
  case Nil
  then show ?case by (simp add: load_completions_def)
next
  case (Cons c cs)
  obtain k img where c: "c = (k, img)" by (cases c)
  have "loaded_image (texobjs (load_completions cs (load_complete k img ss)) ! i) =
        loaded_image (texobjs (load_complete k img ss) ! i)"
    using Cons.prems by (intro Cons.IH) simp
  then show ?case
    using Cons.prems by (simp add: load_completions_def c load_complete_image)
qed


lemma sample_state2_fields:
  "textures sample_state2 = (\<lambda>p. if p = midsole then Some ''blob:2'' else None)"
  "colors sample_state2 = colors sample_state"
  "mappings sample_state2 = mappings sample_state"
  "selectedPart sample_state2 = None" "interactive sample_state2 = True"
  by (auto simp: sample_state2_def sample_state_fields includes_part_def PART_NAMES_def
      handler_image_def fun_eq_iff)

lemmas session_defs = session_effect_def session_part_def register_map_def
  load_complete_def load_completions_def shown_def sample_session_def

lemma sample_session_pass:
  "installed (session_effect sample_state 16 sample_session) 3 = Some 0"
  "texobjs (session_effect sample_state 16 sample_session) =
     [\<lparr>load_url = ''blob:1'', loaded_image = None\<rparr>]"
  by (simp_all add: session_defs eval_defs sample_scene_def sample_state_fields)

lemma sample_session_stale_shown:
  "shown (load_complete 0 ''pixels of blob:1''
            (session_effect sample_state 16 sample_session)) 3 = Some ''pixels of blob:1''"
  by (simp add: shown_def load_complete_def lookup_def sample_session_pass)


lemma sample_session_second_pass:
  "installed (session_effect sample_state2 16 (session_effect sample_state 16 sample_session)) 3
     = Some 1"
  "texobjs (session_effect sample_state2 16 (session_effect sample_state 16 sample_session)) =
     [\<lparr>load_url = ''blob:1'', loaded_image = None\<rparr>,
      \<lparr>load_url = ''blob:2'', loaded_image = None\<rparr>]"
  by (simp_all add: session_defs eval_defs sample_scene_def sample_state_fields
      sample_state2_fields)

lemma sample_session_stale_stored:
  "loaded_image
     (texobjs (load_complete 0 ''pixels of blob:1''
        (session_effect sample_state2 16 (session_effect sample_state 16 sample_session))) ! 0)
   = Some ''pixels of blob:1''"
  by (simp add: load_complete_image sample_session_second_pass)

section \<open>The claims\<close>

text \<open>
  Claim C3. A message whose \<open>part\<close> is not one of the eight part names leaves the whole
  page state as it was: colors, textures, mappings, the selection and the interaction
  flag (and everything else). The handler is a total function, so nothing is raised.
\<close>

theorem handler_unknown_part_ignored:
  assumes "part \<notin> PartName_string ` set PART_NAMES"
  shows "handler st (MessageData part col mp img) = st"
  using assms by (simp add: includes_part_None [symmetric])

theorem handler_unknown_part_ignored_witness:
  "handler Page_init
     (MessageData ''wheel'' (Some ''#ff0000'')
        (Some \<lparr>offsetX = 1, offsetY = 1, scale = 3\<rparr>) (Some ''blob:x'')) = Page_init"
  by (rule handler_unknown_part_ignored) (simp add: PART_NAMES_def)

text \<open>
  Claim C2. For every part that has a mesh in the scene and an active texture, after a
  pass of the effect of page.tsx every material of the part's mesh carries a texture map
  whose repeat is \<open>(2 * scale, 2 * scale)\<close> and whose offset is \<open>(offsetX, offsetY)\<close>
  of the part's stored mapping. The witness is the mapping
  \<open>{offsetX: 0.25, offsetY: -0.1, scale: 2}\<close>, which gives repeat (4, 4) and offset
  (0.25, -0.1).
\<close>

theorem texture_mapping_applied:
  assumes "wf_scene s" "resolve s p = Some r" "r < length (objs s)" "isMesh (objs s ! r)"
    and "truthy (textures st p)"
    and "j \<in> set (materials_of (material (objs (Model_effect st a s) ! r)))"
  shows "\<exists>t. map_tex (mats (Model_effect st a s) ! j) = Some t \<and>
             repeat t = (2 * scale (mappings st p), 2 * scale (mappings st p)) \<and>
             offset t = (offsetX (mappings st p), offsetY (mappings st p))"
proof -
  obtain url where url: "textures st p = Some url" "url \<noteq> []"
    using assms(5) by (cases "textures st p") simp_all
  obtain m0 where "mats (Model_effect st a s) ! j = Model_material st a p m0"
    using Model_effect_applied [OF assms(1-4,6)] by blast
  then show ?thesis by (simp add: Model_material_textured(1) [OF url])
qed

theorem texture_mapping_applied_witness:
  "wf_scene sample_scene \<and>
   materials_of (material (objs (Model_effect sample_state 16 sample_scene) ! 0)) = [3] \<and>
   (\<exists>t. map_tex (mats (Model_effect sample_state 16 sample_scene) ! 3) = Some t \<and>
        repeat t = (4, 4) \<and> offset t = (1 / 4, - (1 / 10)))"
  using texture_mapping_applied [of sample_scene midsole 0 sample_state 3 16]
  by (simp add: sample_scene_wf sample_pass_objs sample_state_fields sample_mapping_def)
     (simp add: resolve_def sample_scene_def)

text \<open>
  Claim C1. In the handler, the color branch (\<open>setColor\<close>) sets the part's color and
  sets its texture reference to \<open>null\<close>; the image branch (\<open>setTexture\<close>) sets the
  texture reference and leaves every color as it was. A message that assigns a color
  followed by a message that assigns an image to the same part therefore ends with the
  image as the part's texture and the color still stored; and after a pass every material
  of the part's mesh shows that image, on a white tint.
\<close>

theorem color_then_image:
  "colors (handler_color p c st) p = c \<and>
   textures (handler_color p c st) p = None \<and>
   textures (handler_image p i st) p = Some i \<and>
   colors (handler_image p i st) = colors st \<and>
   (c \<noteq> [] \<longrightarrow>
      handler st (MessageData (PartName_string p) (Some c) None None) = handler_color p c st) \<and>
   (i \<noteq> [] \<longrightarrow>
      handler st (MessageData (PartName_string p) None None (Some i)) = handler_image p i st) \<and>
   (c \<noteq> [] \<and> i \<noteq> [] \<longrightarrow>
      (let st' = handler (handler st (MessageData (PartName_string p) (Some c) mp None))
                   (MessageData (PartName_string p) None None (Some i))
       in textures st' p = Some i \<and> colors st' p = c \<and>
          (wf_scene s \<and> resolve s p = Some r \<and> r < length (objs s) \<and> isMesh (objs s ! r) \<and>
           j \<in> set (materials_of (material (objs (Model_effect st' a s) ! r))) \<longrightarrow>
             (\<exists>t. map_tex (mats (Model_effect st' a s) ! j) = Some t \<and> src t = i) \<and>
             color (mats (Model_effect st' a s) ! j) = Some ''#ffffff'')))"
proof -
  let ?st' = "handler (handler st (MessageData (PartName_string p) (Some c) mp None))
                   (MessageData (PartName_string p) None None (Some i))"
  have state: "c \<noteq> [] \<Longrightarrow> i \<noteq> [] \<Longrightarrow> textures ?st' p = Some i \<and> colors ?st' p = c"
    by (cases mp) (simp_all add: handler_color_def handler_image_def handler_mapping_def)
  have shown: "(\<exists>t. map_tex (mats (Model_effect ?st' a s) ! j) = Some t \<and> src t = i) \<and>
             color (mats (Model_effect ?st' a s) ! j) = Some ''#ffffff''"
    if ne: "c \<noteq> []" "i \<noteq> []"
      and sc: "wf_scene s" "resolve s p = Some r" "r < length (objs s)" "isMesh (objs s ! r)"
        "j \<in> set (materials_of (material (objs (Model_effect ?st' a s) ! r)))"
  proof -
    have tx: "textures ?st' p = Some i" using state ne by simp
    obtain m0 where "mats (Model_effect ?st' a s) ! j = Model_material ?st' a p m0"
      using Model_effect_applied [OF sc] by blast
    then show ?thesis using Model_material_textured [OF tx ne(2)] by simp
  qed
  show ?thesis
    unfolding Let_def using state shown
    by (simp add: handler_color_def handler_image_def)
qed

theorem color_then_image_witness:
  "textures sample_state midsole = Some ''blob:1'' \<and>
   colors sample_state midsole = ''#ff0000'' \<and>
   materials_of (material (objs (Model_effect sample_state 16 sample_scene) ! 0)) = [3] \<and>
   (\<exists>t. map_tex (mats (Model_effect sample_state 16 sample_scene) ! 3) = Some t \<and>
        src t = ''blob:1'') \<and>
   color (mats (Model_effect sample_state 16 sample_scene) ! 3) = Some ''#ffffff''"
proof -
  have st: "handler
       (handler Page_init
          (MessageData (PartName_string midsole) (Some ''#ff0000'') (Some sample_mapping) None))
       (MessageData (PartName_string midsole) None None (Some ''blob:1'')) = sample_state"
    by (simp add: sample_state_def)
  have sc: "resolve sample_scene midsole = Some 0" "objs sample_scene \<noteq> []"
    "isMesh (objs sample_scene ! 0)"
    by (simp_all add: resolve_def sample_scene_def)
  show ?thesis
    using color_then_image [of midsole "''#ff0000''" Page_init "''blob:1''"
        "Some sample_mapping" sample_scene 0 3 16]
    unfolding st Let_def
    by (simp add: sample_scene_wf sample_pass_objs sample_state_fields sc del: handler.simps)
qed

text \<open>
  Claim C6. Toggling interaction off clears the selection; while interaction is off, a
  pointer-down and a pointer-miss leave the page state (hence the selection) as it
  was; and in every state the page can reach from its initial state, by any sequence of
  events, interaction off implies that no part is selected.
\<close>

theorem noninteractive_has_no_selection:
  "(interactive st \<longrightarrow>
      selectedPart (toggleInteractive st) = None \<and> \<not> interactive (toggleInteractive st)) \<and>
   (\<not> interactive st \<longrightarrow>
      onPointerDown st hit = st \<and> onPointerMissed st = st) \<and>
   (\<not> interactive (run B Page_init evs) \<longrightarrow> selectedPart (run B Page_init evs) = None)"
proof -
  have "\<not> interactive Page_init \<longrightarrow> selectedPart Page_init = None"
    by (simp add: Page_init_def)
  from run_keeps_deselected [OF this] show ?thesis
    by (simp add: toggleInteractive_def onPointerDown_def onPointerMissed_def Let_def)
qed

theorem noninteractive_has_no_selection_witness:
  "selectedPart (onPointerDown Page_init ''midsole'') = Some midsole \<and>
   selectedPart (toggleInteractive (onPointerDown Page_init ''midsole'')) = None \<and>
   \<not> interactive (toggleInteractive (onPointerDown Page_init ''midsole'')) \<and>
   onPointerDown (toggleInteractive Page_init) ''midsole'' = toggleInteractive Page_init \<and>
   onPointerMissed (toggleInteractive Page_init) = toggleInteractive Page_init \<and>
   selectedPart
     (run sample_browser Page_init [PointerDown ''midsole'', Toggle, PointerDown ''logo'']) = None"
  using noninteractive_has_no_selection [of "onPointerDown Page_init ''midsole''" "''x''"
      sample_browser "[]"]
    noninteractive_has_no_selection [of "toggleInteractive Page_init" "''midsole''"
      sample_browser "[PointerDown ''midsole'', Toggle, PointerDown ''logo'']"]
  by (simp add: run_def toggleInteractive_def onPointerDown_def Page_init_def Let_def
      includes_part_def PART_NAMES_def)

text \<open>
  Claim C9. \<open>getCroppedImg\<close> resolves exactly when the source decodes and the canvas
  serialises, and then with the blob that \<open>toBlob\<close> gives for the type \<open>image/png\<close> on
  the canvas it has sized from the crop region and on which it has drawn the region
  unscaled at the origin. For a region in whole pixels (width and height whole numbers
  from 0 to 2147483647, as the cropper delivers them) that canvas is exactly as wide and
  as high as the region. It rejects when the source fails to decode and when
  serialisation gives no blob; and when it rejects, \<open>applyCrop\<close> leaves the
  customization state as it was.
\<close>

theorem getCroppedImg_contract:
  "(getCroppedImg B url pc = Inr blob \<longleftrightarrow>
      (\<exists>im. createImage B url = Some im \<and>
            toBlob B (crop_canvas im pc) ''image/png'' = Some blob)) \<and>
   (crop_width pc \<in> \<int> \<and> 0 \<le> crop_width pc \<and> crop_width pc \<le> 2147483647 \<longrightarrow>
      real_of_int (width (crop_canvas im pc)) = crop_width pc) \<and>
   (crop_height pc \<in> \<int> \<and> 0 \<le> crop_height pc \<and> crop_height pc \<le> 2147483647 \<longrightarrow>
      real_of_int (height (crop_canvas im pc)) = crop_height pc) \<and>
   drawn (crop_canvas im pc) =
     [(im, (crop_x pc, crop_y pc, crop_width pc, crop_height pc),
           (0, 0, crop_width pc, crop_height pc))] \<and>
   (createImage B url = None \<longrightarrow> getCroppedImg B url pc = Inl ImageError) \<and>
   (createImage B url = Some im \<and> toBlob B (crop_canvas im pc) ''image/png'' = None \<longrightarrow>
      getCroppedImg B url pc = Inl CanvasIsEmpty) \<and>
   (imageSrc st = Some url \<and> croppedAreaPixels st = Some pc \<and>
    getCroppedImg B url pc = Inl e \<longrightarrow>
      customization (applyCrop B st) = customization st)"
proof -
  have sz: "width (crop_canvas im pc) = set_dimension 300 (crop_width pc)"
    "height (crop_canvas im pc) = set_dimension 150 (crop_height pc)"
    "drawn (crop_canvas im pc) =
     [(im, (crop_x pc, crop_y pc, crop_width pc, crop_height pc),
           (0, 0, crop_width pc, crop_height pc))]"
    by (simp_all add: crop_canvas_def createElement_canvas_def drawImage_def Let_def)
  have res: "(getCroppedImg B url pc = Inr blob \<longleftrightarrow>
      (\<exists>im. createImage B url = Some im \<and>
            toBlob B (crop_canvas im pc) ''image/png'' = Some blob))"
    "createImage B url = None \<longrightarrow> getCroppedImg B url pc = Inl ImageError"
    "createImage B url = Some im \<and> toBlob B (crop_canvas im pc) ''image/png'' = None \<longrightarrow>
      getCroppedImg B url pc = Inl CanvasIsEmpty"
    by (auto simp: getCroppedImg_def split: option.splits)
  have fail: "imageSrc st = Some url \<and> croppedAreaPixels st = Some pc \<and>
    getCroppedImg B url pc = Inl e \<longrightarrow> customization (applyCrop B st) = customization st"
    by (auto simp: applyCrop_def reset_crop_def customization_def split: option.splits)
  show ?thesis
    using res fail by (simp add: sz set_dimension_whole)
qed

theorem getCroppedImg_contract_witness:
  "getCroppedImg sample_browser ''data:image/png;base64,AAAA'' sample_crop =
     Inr (''image/png'', 100, 100) \<and>
   width (crop_canvas (400 :: int, 300 :: int) sample_crop) = 100 \<and>
   height (crop_canvas (400 :: int, 300 :: int) sample_crop) = 100 \<and>
   getCroppedImg sample_browser [] sample_crop = Inl ImageError \<and>
   getCroppedImg sample_browser ''a.png'' (sample_crop\<lparr>crop_width := 0\<rparr>) = Inl CanvasIsEmpty \<and>
   customization
     (applyCrop sample_browser
        (Page_init\<lparr>selectedPart := Some midsole, imageSrc := Some ''a.png'',
                    croppedAreaPixels := Some (sample_crop\<lparr>crop_width := 0\<rparr>)\<rparr>)) =
   customization
     (Page_init\<lparr>selectedPart := Some midsole, imageSrc := Some ''a.png'',
                 croppedAreaPixels := Some (sample_crop\<lparr>crop_width := 0\<rparr>)\<rparr>)"
proof -
  let ?ok = "''data:image/png;base64,AAAA''"
  let ?zero = "sample_crop\<lparr>crop_width := 0\<rparr>"
  let ?st = "Page_init\<lparr>selectedPart := Some midsole, imageSrc := Some ''a.png'',
                    croppedAreaPixels := Some ?zero\<rparr>"
  note ok = getCroppedImg_contract [of sample_browser ?ok sample_crop
      "(''image/png'', 100, 100)" "(400, 300)" Page_init ImageError]
  note bad = getCroppedImg_contract [of sample_browser "[]" sample_crop
      "(''image/png'', 100, 100)" "(400, 300)" Page_init ImageError]
  note zero = getCroppedImg_contract [of sample_browser "''a.png''" ?zero
      "(''image/png'', 100, 100)" "(400, 300)" ?st CanvasIsEmpty]
  have w: "width (crop_canvas (400 :: int, 300 :: int) sample_crop) = 100"
    using ok [THEN conjunct2, THEN conjunct1] by (simp add: sample_crop_def)
  have h: "height (crop_canvas (400 :: int, 300 :: int) sample_crop) = 100"
    using ok [THEN conjunct2, THEN conjunct2, THEN conjunct1] by (simp add: sample_crop_def)
  have w0: "width (crop_canvas (400 :: int, 300 :: int) ?zero) = 0"
    using zero [THEN conjunct2, THEN conjunct1] by (simp add: sample_crop_def)
  have im: "createImage sample_browser ?ok = Some (400, 300)"
    "createImage sample_browser ''a.png'' = Some (400, 300)"
    "createImage sample_browser [] = None"
    by (simp_all add: sample_browser_def)
  have b1: "toBlob sample_browser (crop_canvas (400 :: int, 300 :: int) sample_crop) ''image/png'' =
      Some (''image/png'', 100, 100)"
    by (simp add: sample_browser_def w h)
  have b0: "toBlob sample_browser (crop_canvas (400 :: int, 300 :: int) ?zero) ''image/png'' = None"
    by (simp add: sample_browser_def w0)
  have r1: "getCroppedImg sample_browser ?ok sample_crop = Inr (''image/png'', 100, 100)"
    using ok [THEN conjunct1] im(1) b1 by blast
  have r2: "getCroppedImg sample_browser [] sample_crop = Inl ImageError"
    using bad im(3) by blast
  have r3: "getCroppedImg sample_browser ''a.png'' ?zero = Inl CanvasIsEmpty"
    using zero im(2) b0 by blast
  have r4: "customization (applyCrop sample_browser ?st) = customization ?st"
    using zero r3 by simp
  show ?thesis using w h r1 r2 r3 r4 by blast
qed

text \<open>
  Claim C8. The effect of page.tsx does not do what the claim says. Its material
  callback assigns \<open>map\<close>, \<open>color\<close>, \<open>roughness\<close>, \<open>metalness\<close> and \<open>needsUpdate\<close>
  and nothing else, so the five secondary maps stay as the asset delivered them. In the
  sample scene the midsole's material carries a baked normal map: after a pass of
  page.tsx, with a texture as the part's visual source and also with a color, the
  material has roughness 1 and metalness 0 and still has that normal map; the pass of
  index.tsx on the same scene sets it to null.
\<close>

theorem page_effect_keeps_normalMap:
  "resolve sample_scene midsole = Some 0 \<and>
   normalMap sample_material = Some sample_texture \<and>
   truthy (textures sample_state midsole) \<and>
   materials_of (material (objs (Model_effect sample_state 16 sample_scene) ! 0)) = [3] \<and>
   roughness (mats (Model_effect sample_state 16 sample_scene) ! 3) = Some 1 \<and>
   metalness (mats (Model_effect sample_state 16 sample_scene) ! 3) = Some 0 \<and>
   normalMap (mats (Model_effect sample_state 16 sample_scene) ! 3) = Some sample_texture \<and>
   textures Page_init midsole = None \<and>
   materials_of (material (objs (Model_effect Page_init 16 sample_scene) ! 0)) = [3] \<and>
   normalMap (mats (Model_effect Page_init 16 sample_scene) ! 3) = Some sample_texture \<and>
   materials_of (material (objs (Model_effect_index initialColors None True sample_scene) ! 0))
     = [3] \<and>
   normalMap (mats (Model_effect_index initialColors None True sample_scene) ! 3) = None"
proof -
  have a: "normalMap sample_material = Some sample_texture"
    "truthy (textures sample_state midsole)" "textures Page_init midsole = None"
    by (simp_all add: sample_material_def sample_state_fields Page_init_def
        initialTextures_def)
  show ?thesis
    by (intro conjI sample_resolve a sample_pass_slot sample_pass_mat3 sample_init_pass(1,3)
        sample_index_pass(1) sample_index_pass_normalMap)
qed

text \<open>
  Claim C4. A pass that finds an unmarked mesh under a part name marks it and gives it
  as many material references as it had, all of them new (beyond the materials that
  existed before the pass). A marked mesh keeps its material reference and its mark
  through any sequence of passes, whatever the props. And a second pass right after a
  pass creates no material and changes no material reference of any object.
\<close>

theorem material_cloned_once:
  "(wf_scene s \<and> resolve s p = Some r \<and> r < length (objs s) \<and> isMesh (objs s ! r) \<and>
    \<not> cloned (objs s ! r) \<longrightarrow>
      cloned (objs (Model_effect st a s) ! r) \<and>
      length (materials_of (material (objs (Model_effect st a s) ! r))) =
        length (materials_of (material (objs s ! r))) \<and>
      (\<forall>j \<in> set (materials_of (material (objs (Model_effect st a s) ! r))).
         length (mats s) \<le> j \<and> j < length (mats (Model_effect st a s)))) \<and>
   (i < length (objs s) \<and> cloned (objs s ! i) \<longrightarrow>
      material (objs (Model_effects renders s) ! i) = material (objs s ! i) \<and>
      cloned (objs (Model_effects renders s) ! i)) \<and>
   length (mats (Model_effect st' a' (Model_effect st a s))) =
     length (mats (Model_effect st a s)) \<and>
   material (objs (Model_effect st' a' (Model_effect st a s)) ! i) =
     material (objs (Model_effect st a s) ! i)"
proof (intro conjI impI)
  assume h: "wf_scene s \<and> resolve s p = Some r \<and> r < length (objs s) \<and>
    isMesh (objs s ! r) \<and> \<not> cloned (objs s ! r)"
  let ?s1 = "Model_effect st a s"
  have ft: "cloned (objs ?s1 ! r) \<and>
         (\<forall>j \<in> set (materials_of (material (objs ?s1 ! r))). length (mats s) \<le> j) \<and>
         length (materials_of (material (objs ?s1 ! r))) =
           length (materials_of (material (objs s ! r)))"
    using fold_part_first_touch [of s p PART_NAMES r "Model_material st a" "interactive st"
        "selectedPart st"] h
    by (simp add: Model_effect_def reconcile_def)
  show "cloned (objs ?s1 ! r)" using ft by simp
  show "length (materials_of (material (objs ?s1 ! r))) =
        length (materials_of (material (objs s ! r)))" using ft by simp
  have "refs_valid ?s1" using h Model_effect_wf [of s st a] by (simp add: wf_scene_def)
  then have "\<forall>j \<in> set (materials_of (material (objs ?s1 ! r))). j < length (mats ?s1)"
    using h unfolding refs_valid_def by (metis Model_effect_frame(3))
  then show "\<forall>j \<in> set (materials_of (material (objs ?s1 ! r))).
         length (mats s) \<le> j \<and> j < length (mats ?s1)"
    using ft by simp
next
  assume "i < length (objs s) \<and> cloned (objs s ! i)"
  then have "i < length (objs s)" "cloned (objs s ! i)" by simp_all
  from Model_effects_marked [OF this, of renders]
  show "material (objs (Model_effects renders s) ! i) = material (objs s ! i)"
    and "cloned (objs (Model_effects renders s) ! i)" by simp_all
next
  show "length (mats (Model_effect st' a' (Model_effect st a s))) =
     length (mats (Model_effect st a s))" by (rule Model_effect_twice(1))
  show "material (objs (Model_effect st' a' (Model_effect st a s)) ! i) =
     material (objs (Model_effect st a s) ! i)" by (rule Model_effect_twice(2))
qed

theorem material_cloned_once_witness:
  "length (mats sample_scene) = 1 \<and>
   cloned (objs (Model_effect sample_state 16 sample_scene) ! 0) \<and>
   material (objs (Model_effect sample_state 16 sample_scene) ! 0) = Single 3 \<and>
   length (mats (Model_effect sample_state 16 sample_scene)) = 4 \<and>
   material (objs (Model_effects [(Page_init, 16), (sample_state, 8)]
                     (Model_effect sample_state 16 sample_scene)) ! 0) = Single 3 \<and>
   length (mats (Model_effect Page_init 16 (Model_effect sample_state 16 sample_scene))) = 4"
proof -
  have sc: "resolve sample_scene midsole = Some 0" "objs sample_scene \<noteq> []"
    "isMesh (objs sample_scene ! 0)" "\<not> cloned (objs sample_scene ! 0)"
    "length (mats sample_scene) = 1"
    "materials_of (material (objs sample_scene ! 0)) = [0]"
    by (simp_all add: resolve_def sample_scene_def)
  show ?thesis
    using material_cloned_once [of sample_scene midsole 0 sample_state 16 0 "[]" Page_init 16]
      material_cloned_once [of "Model_effect sample_state 16 sample_scene" midsole 0
        sample_state 16 0 "[(Page_init, 16), (sample_state, 8)]" Page_init 16]
    by (simp add: sample_scene_wf sc sample_pass_objs sample_pass_mats_length)
qed

text \<open>
  Claim C5. The overlay invariant (the line objects attached to an object are exactly
  the one recorded as its outline, and every line object ever created is either some
  object's recorded outline or has had its geometry and material disposed) is kept by
  every sequence of passes, so between passes every object carries at most one overlay.
  A pass that finds a mesh removes the overlay the mesh had and disposes its geometry
  and material: afterwards that overlay is released and is no child of the mesh. An
  overlay created by a pass sits on a mesh found under the selected part's name, and only
  while interaction is enabled; a mesh that a pass has found carries an overlay
  afterwards only in that case, and in a well-formed scene the selected part is then the
  part of that mesh. Conversely the mesh of the selected part carries exactly one, new,
  overlay after a pass with interaction enabled.
\<close>

theorem overlay_at_most_one:
  "(overlay_inv s \<longrightarrow>
      overlay_inv (Model_effects renders s) \<and>
      (\<forall>i < length (objs (Model_effects renders s)).
         length (children (objs (Model_effects renders s) ! i)) \<le> 1)) \<and>
   (overlay_inv s \<and> resolve s p = Some r \<and> r < length (objs s) \<and> isMesh (objs s ! r) \<and>
    outline (objs s ! r) = Some l \<longrightarrow>
      released (Model_effect st a s) l \<and>
      outline (objs (Model_effect st a s) ! r) \<noteq> Some l \<and>
      l \<notin> set (children (objs (Model_effect st a s) ! r))) \<and>
   (overlay_inv s \<and> i < length (objs s) \<and>
    outline (objs (Model_effect st a s) ! i) = Some n \<and> length (lines s) \<le> n \<longrightarrow>
      interactive st \<and> isMesh (objs s ! i) \<and>
      (\<exists>q. selectedPart st = Some q \<and> resolve s q = Some i)) \<and>
   (resolve s p = Some r \<and> r < length (objs s) \<and> isMesh (objs s ! r) \<and>
    outline (objs (Model_effect st a s) ! r) \<noteq> None \<longrightarrow>
      interactive st \<and> (\<exists>q. selectedPart st = Some q \<and> resolve s q = Some r) \<and>
      (wf_scene s \<longrightarrow> selectedPart st = Some p)) \<and>
   (wf_scene s \<and> overlay_inv s \<and> resolve s p = Some r \<and> r < length (objs s) \<and>
    isMesh (objs s ! r) \<and> interactive st \<and> selectedPart st = Some p \<longrightarrow>
      (\<exists>k \<ge> length (lines s).
         outline (objs (Model_effect st a s) ! r) = Some k \<and>
         children (objs (Model_effect st a s) ! r) = [k] \<and>
         k < length (lines (Model_effect st a s))))"
proof (intro conjI impI)
  assume ov: "overlay_inv s"
  then show "overlay_inv (Model_effects renders s)" by (rule Model_effects_overlay)
  then show "\<forall>i < length (objs (Model_effects renders s)).
         length (children (objs (Model_effects renders s) ! i)) \<le> 1"
    using overlay_inv_children by blast
next
  let ?s' = "Model_effect st a s"
  assume h: "overlay_inv s \<and> resolve s p = Some r \<and> r < length (objs s) \<and>
    isMesh (objs s ! r) \<and> outline (objs s ! r) = Some l"
  then have l: "l < length (lines s)" by (auto simp: overlay_inv_def)
  show "released ?s' l"
    using fold_part_releases [of s p PART_NAMES r l "Model_material st a" "interactive st"
        "selectedPart st"] h
    by (simp add: Model_effect_def reconcile_def)
  have "\<exists>q \<in> set PART_NAMES. resolve s q = Some r \<and> isMesh (objs s ! r)"
    using h by auto
  then have "outline (objs ?s' ! r) = None \<or>
      (\<exists>n \<ge> length (lines s). outline (objs ?s' ! r) = Some n)"
    using fold_part_outline [of r s PART_NAMES "Model_material st a" "interactive st"
        "selectedPart st"] h
    by (auto simp: Model_effect_def reconcile_def)
  then show ne: "outline (objs ?s' ! r) \<noteq> Some l" using l by auto
  have "overlay_inv ?s'" using h by (simp add: Model_effect_overlay)
  then have "children (objs ?s' ! r) = outline_list (objs ?s' ! r)"
    using h by (simp add: overlay_inv_def)
  then show "l \<notin> set (children (objs ?s' ! r))"
    using ne by (auto simp: outline_list_def split: option.splits)
next
  let ?s' = "Model_effect st a s"
  assume h: "overlay_inv s \<and> i < length (objs s) \<and> outline (objs ?s' ! i) = Some n \<and>
    length (lines s) \<le> n"
  have old: "\<And>k. outline (objs s ! i) = Some k \<Longrightarrow> k < length (lines s)"
    using h by (auto simp: overlay_inv_def)
  have "interactive st \<and> isMesh (objs s ! i) \<and>
      (\<exists>q. selectedPart st = Some q \<and> resolve s q = Some i)"
    using fold_part_outline [of i s PART_NAMES "Model_material st a" "interactive st"
        "selectedPart st"] h old
    by (auto simp: Model_effect_def reconcile_def split: if_splits)
  then show "interactive st" "isMesh (objs s ! i)"
    "\<exists>q. selectedPart st = Some q \<and> resolve s q = Some i" by simp_all
next
  let ?s' = "Model_effect st a s"
  assume h: "resolve s p = Some r \<and> r < length (objs s) \<and> isMesh (objs s ! r) \<and>
    outline (objs ?s' ! r) \<noteq> None"
  have "\<exists>q \<in> set PART_NAMES. resolve s q = Some r \<and> isMesh (objs s ! r)"
    using h by auto
  then have sel: "interactive st \<and> (\<exists>q. selectedPart st = Some q \<and> resolve s q = Some r)"
    using fold_part_outline [of r s PART_NAMES "Model_material st a" "interactive st"
        "selectedPart st"] h
    by (auto simp: Model_effect_def reconcile_def)
  then show "interactive st" "\<exists>q. selectedPart st = Some q \<and> resolve s q = Some r"
    by simp_all
  assume "wf_scene s"
  then have "named s" by (simp add: wf_scene_def)
  then show "selectedPart st = Some p"
    using sel h named_unique [of s _ r p] by auto
next
  let ?s' = "Model_effect st a s"
  assume h: "wf_scene s \<and> overlay_inv s \<and> resolve s p = Some r \<and> r < length (objs s) \<and>
    isMesh (objs s ! r) \<and> interactive st \<and> selectedPart st = Some p"
  then obtain k where k: "length (lines s) \<le> k" "outline (objs ?s' ! r) = Some k"
    using fold_part_selected [of s PART_NAMES p r "interactive st" "selectedPart st"
        "Model_material st a"] PART_NAMES_distinct
    by (auto simp: Model_effect_def reconcile_def)
  have ov: "overlay_inv ?s'" using h by (simp add: Model_effect_overlay)
  then have "children (objs ?s' ! r) = [k]" "k < length (lines ?s')"
    using h k by (auto simp: overlay_inv_def outline_list_def)
  then show "\<exists>k \<ge> length (lines s). outline (objs ?s' ! r) = Some k \<and>
         children (objs ?s' ! r) = [k] \<and> k < length (lines ?s')"
    using k by blast
qed

theorem overlay_at_most_one_witness:
  "overlay_inv sample_scene \<and>
   outline (objs (Model_effect sample_selected 16 sample_scene) ! 0) = Some 0 \<and>
   children (objs (Model_effect sample_selected 16 sample_scene) ! 0) = [0] \<and>
   released (Model_effect sample_deselected 16 (Model_effect sample_selected 16 sample_scene)) 0 \<and>
   outline (objs (Model_effect sample_deselected 16
                    (Model_effect sample_selected 16 sample_scene)) ! 0) \<noteq> Some 0 \<and>
   overlay_inv (Model_effects [(sample_selected, 16), (sample_deselected, 16)] sample_scene)"
proof -
  let ?s1 = "Model_effect sample_selected 16 sample_scene"
  have sc: "resolve sample_scene midsole = Some 0" "objs sample_scene \<noteq> []"
    "isMesh (objs sample_scene ! 0)" "lines sample_scene = []"
    by (simp_all add: resolve_def sample_scene_def)
  have ov1: "overlay_inv ?s1" using sample_scene_overlay by (rule Model_effect_overlay)
  show ?thesis
    using overlay_at_most_one [of sample_scene
        "[(sample_selected, 16), (sample_deselected, 16)]" midsole 0 0 sample_selected 16 0 0]
      overlay_at_most_one [of ?s1 "[]" midsole 0 0 sample_deselected 16 0 0]
    by (simp add: sample_scene_overlay sample_scene_wf ov1 sc sample_selected_pass
        sample_selected_fields)
qed

text \<open>
  Claim C7, as stated, fails: nothing is compared and nothing is discarded when a load
  completes. After a pass with \<open>blob:1\<close> as the midsole's texture, material 3 holds the
  texture object of load 0. A message then reassigns the midsole's texture to
  \<open>blob:2\<close> while load 0 is in flight. If load 0 completes before the next pass has
  run, its image is stored in the texture object that material 3 still holds, and is
  shown, although the part's texture reference no longer matches; if it completes after
  the next pass, its image is stored all the same, in the texture object of load 0.
\<close>

theorem stale_load_counterexample:
  "textures sample_state midsole = Some ''blob:1'' \<and>
   installed (session_effect sample_state 16 sample_session) 3 = Some 0 \<and>
   texobjs (session_effect sample_state 16 sample_session) =
     [\<lparr>load_url = ''blob:1'', loaded_image = None\<rparr>] \<and>
   textures sample_state2 midsole = Some ''blob:2'' \<and>
   shown (load_complete 0 ''pixels of blob:1''
            (session_effect sample_state 16 sample_session)) 3 = Some ''pixels of blob:1'' \<and>
   loaded_image
     (texobjs (load_complete 0 ''pixels of blob:1''
        (session_effect sample_state2 16 (session_effect sample_state 16 sample_session))) ! 0)
   = Some ''pixels of blob:1''"
proof -
  have a: "textures sample_state midsole = Some ''blob:1''"
    "textures sample_state2 midsole = Some ''blob:2''"
    by (simp_all add: sample_state_fields sample_state2_fields)
  show ?thesis
    by (intro conjI a sample_session_pass sample_session_stale_shown
        sample_session_stale_stored)
qed

text \<open>
  Claim C7, amended. The effect gives \<open>loader.load\<close> no completion callback: a
  completed load is stored in the texture object it was started for, whatever the part's
  texture reference is by then, and changes neither the scene nor which texture object a
  material holds. A pass gives every material of a part that has a texture reference a
  new texture object, made from the reference current at that pass. So after the pass,
  whatever loads complete and in whatever order, the material keeps that texture object
  and its reference, the newer reference is never overwritten, and completions of loads
  started before the pass do not change what the material shows.
\<close>

theorem stale_load_never_overwrites:
  assumes "wf_scene (scene ss)" "resolve (scene ss) p = Some r" "r < length (objs (scene ss))"
    and "isMesh (objs (scene ss) ! r)" "textures st p = Some u" "u \<noteq> []"
    and "j \<in> set (materials_of (material (objs (scene (session_effect st a ss)) ! r)))"
  shows
    "(\<exists>k. length (texobjs ss) \<le> k \<and>
          installed (session_effect st a ss) j = Some k \<and>
          (\<exists>t. map_tex (mats (scene (session_effect st a ss)) ! j) = Some t \<and> src t = u) \<and>
          scene (load_completions cs (session_effect st a ss)) = scene (session_effect st a ss) \<and>
          installed (load_completions cs (session_effect st a ss)) j = Some k \<and>
          k < length (texobjs (load_completions cs (session_effect st a ss))) \<and>
          load_url (texobjs (load_completions cs (session_effect st a ss)) ! k) = u \<and>
          ((\<forall>c \<in> set cs. fst c < length (texobjs ss)) \<longrightarrow>
             shown (load_completions cs (session_effect st a ss)) j = None)) \<and>
     scene (load_complete i img ss) = scene ss \<and>
     installed (load_complete i img ss) = installed ss \<and>
     (i < length (texobjs ss) \<longrightarrow>
        loaded_image (texobjs (load_complete i img ss) ! i) = Some img)"
proof -
  let ?ss' = "session_effect st a ss"
  have "fresh_for u (length (texobjs ss)) ?ss' j"
    unfolding session_effect_def
    using assms(1) PART_NAMES_distinct PART_NAMES_all assms(2-6)
  proof (rule fold_session_applied)
    show "j \<in> set (materials_of (material
        (objs (scene (fold (session_part st a) PART_NAMES ss)) ! r)))"
      using assms(7) by (simp add: session_effect_def)
  qed
  then obtain k where k: "installed ?ss' j = Some k" "length (texobjs ss) \<le> k"
    "k < length (texobjs ?ss')" "texobjs ?ss' ! k = \<lparr>load_url = u, loaded_image = None\<rparr>"
    by (auto simp: fresh_for_def)
  have j: "j \<in> set (materials_of (material (objs (Model_effect st a (scene ss)) ! r)))"
    using assms(7) by simp
  obtain m0 where "mats (Model_effect st a (scene ss)) ! j = Model_material st a p m0"
    using Model_effect_applied [OF assms(1-4) j] by blast
  then have map: "\<exists>t. map_tex (mats (scene ?ss') ! j) = Some t \<and> src t = u"
    by (simp add: Model_material_textured(1) [OF assms(5,6)])
  have url: "load_url (texobjs (load_completions cs ?ss') ! k) = u"
    using k(4) by simp
  have stale: "shown (load_completions cs ?ss') j = None"
    if "\<forall>c \<in> set cs. fst c < length (texobjs ss)"
  proof -
    have "\<forall>c \<in> set cs. fst c \<noteq> k" using that k(2) by auto
    then have "loaded_image (texobjs (load_completions cs ?ss') ! k) = None"
      using k(4) by (simp add: load_completions_image)
    then show ?thesis using k(1,3) by (simp add: shown_def lookup_def)
  qed
  have first: "\<exists>k. length (texobjs ss) \<le> k \<and>
          installed ?ss' j = Some k \<and>
          (\<exists>t. map_tex (mats (scene ?ss') ! j) = Some t \<and> src t = u) \<and>
          scene (load_completions cs ?ss') = scene ?ss' \<and>
          installed (load_completions cs ?ss') j = Some k \<and>
          k < length (texobjs (load_completions cs ?ss')) \<and>
          load_url (texobjs (load_completions cs ?ss') ! k) = u \<and>
          ((\<forall>c \<in> set cs. fst c < length (texobjs ss)) \<longrightarrow>
             shown (load_completions cs ?ss') j = None)"
    using k(1,2,3) map url stale by (intro exI [of _ k]) simp
  show ?thesis
    using first by (simp add: load_complete_image)
qed

theorem stale_load_never_overwrites_witness:
  "installed (session_effect sample_state 16 sample_session) 3 = Some 0 \<and>
   installed (session_effect sample_state2 16 (session_effect sample_state 16 sample_session)) 3
     = Some 1 \<and>
   installed
     (load_completions [(0, ''pixels of blob:1'')]
        (session_effect sample_state2 16 (session_effect sample_state 16 sample_session))) 3
     = Some 1 \<and>
   load_url
     (texobjs
        (load_completions [(0, ''pixels of blob:1'')]
           (session_effect sample_state2 16 (session_effect sample_state 16 sample_session)))
      ! 1) = ''blob:2'' \<and>
   shown
     (load_completions [(0, ''pixels of blob:1'')]
        (session_effect sample_state2 16 (session_effect sample_state 16 sample_session))) 3
     = None"
proof -
  let ?ss1 = "session_effect sample_state 16 sample_session"
  have sc: "scene ?ss1 = Model_effect sample_state 16 sample_scene"
    by (simp add: sample_session_def)
  have h: "wf_scene (scene ?ss1)" "resolve (scene ?ss1) midsole = Some 0"
    "0 < length (objs (scene ?ss1))" "isMesh (objs (scene ?ss1) ! 0)"
    "textures sample_state2 midsole = Some ''blob:2''" "''blob:2'' \<noteq> []"
    by (simp_all add: sample_session_def Model_effect_wf sample_scene_wf sample_resolve
        sample_state2_fields)
       (simp_all add: sample_scene_def)
  have slot: "3 \<in> set (materials_of (material
      (objs (scene (session_effect sample_state2 16 ?ss1)) ! 0)))"
    using Model_effect_marked(1) [of 0 "Model_effect sample_state 16 sample_scene"
        sample_state2 16]
    by (simp add: sample_session_def sample_pass_objs)
  show ?thesis
    using stale_load_never_overwrites [OF h slot, of "[(0, ''pixels of blob:1'')]" 0 "[]"]
    by (simp add: sample_session_pass sample_session_second_pass)
qed

end
